theory Spec2Isabelle
  imports Complex_Main "HOL-Library.Sublist" "HOL-Library.AList" "HOL-Library.Word"
begin

section \<open>Strings\<close>

text \<open>
  The texts the tools build (messages, outcome lines, names) are modelled as
  \<^typ>\<open>string\<close>: the list of the characters, one \<^typ>\<open>char\<close> per ASCII character and
  the UTF-8 bytes of every other code point. The comparisons below work on any list.
\<close>

text \<open>
  \<open>String.prototype.startsWith(p)\<close> from position 0: false when \<open>p\<close> is longer than the
  string, otherwise the comparison of the first \<open>length p\<close> elements.
\<close>

definition str_startsWith :: "'a list \<Rightarrow> 'a list \<Rightarrow> bool" where
  "str_startsWith s p = (length p \<le> length s \<and> take (length p) s = p)"

text \<open>
  \<open>StringIndexOf(s, p, i)\<close> of ECMAScript: the candidates \<open>i, i + 1, ...\<close> are compared in
  turn as long as \<open>p\<close> still fits, and \<open>-1\<close> is the answer when none matches.
  \<open>includes\<close> is \<open>indexOf \<noteq> -1\<close>.
\<close>

function stringIndexOf :: "'a list \<Rightarrow> 'a list \<Rightarrow> nat \<Rightarrow> int" where
  "stringIndexOf s p i =
     (if length s < i + length p then - 1
      else if take (length p) (drop i s) = p then int i
      else stringIndexOf s p (Suc i))"
  by pat_completeness auto
termination
  by (relation "measure (\<lambda>(s, p, i). Suc (length s) - i)") auto

declare stringIndexOf.simps [simp del]

definition str_includes :: "'a list \<Rightarrow> 'a list \<Rightarrow> bool" where
  "str_includes s p = (stringIndexOf s p 0 \<noteq> - 1)"

text \<open>\<open>Array.prototype.join\<close> on an array of strings.\<close>

fun str_join :: "string \<Rightarrow> string list \<Rightarrow> string" where
  "str_join sep [] = []"
| "str_join sep [x] = x"
| "str_join sep (x # y # ys) = x @ sep @ str_join sep (y # ys)"



section \<open>Fuzzy matching\<close>

text \<open>
  The strings the matcher works on are JavaScript strings as the language has them:
  lists of UTF-16 code units, on which \<open>===\<close>, \<open>startsWith\<close> and \<open>includes\<close> compare
  unit by unit. \<open>codeUnits\<close> writes such a string from the codes of its characters, for
  the characters up to U+00FF.
\<close>

type_synonym jsstring = "16 word list"

definition codeUnits :: "string \<Rightarrow> jsstring" where
  "codeUnits s = map (\<lambda>c. of_nat (of_char c)) s"

text \<open>
  \<open>String.prototype.toLowerCase\<close>. On a string of code units below 0x100 (Basic Latin
  and Latin-1 Supplement) the conversion goes unit by unit: \<open>A\<close>..\<open>Z\<close> and U+00C0..U+00DE
  without the multiplication sign U+00D7 move up by 0x20, and every other unit stays. On
  any other string the result is that of the default case conversion of Unicode with
  the tables of the engine that runs the code, and so is a parameter, \<open>unicodeLower\<close>, of
  every function that lowers a string.
\<close>

definition toLowerLatin1 :: "16 word \<Rightarrow> 16 word" where
  "toLowerLatin1 c =
     (if (0x41 \<le> c \<and> c \<le> 0x5A) \<or> (0xC0 \<le> c \<and> c \<le> 0xDE \<and> c \<noteq> 0xD7) then c + 0x20 else c)"

definition str_toLowerCase :: "(jsstring \<Rightarrow> jsstring) \<Rightarrow> jsstring \<Rightarrow> jsstring" where
  "str_toLowerCase unicodeLower s =
     (if \<forall>c \<in> set s. c < 0x100 then map toLowerLatin1 s else unicodeLower s)"

text \<open>
  \<open>String.prototype.trim\<close> removes the white space and the line terminators at both
  ends: TAB, VT, FF, U+FEFF and the space separators (U+0020, U+00A0, U+1680,
  U+2000..U+200A, U+202F, U+205F, U+3000), and LF, CR, U+2028, U+2029. Each of them is
  one code unit.
\<close>

definition isWhiteSpace :: "16 word \<Rightarrow> bool" where
  "isWhiteSpace c =
     (c \<in> {0x9, 0xA, 0xB, 0xC, 0xD, 0x20, 0xA0, 0x1680, 0x2028, 0x2029, 0x202F, 0x205F,
            0x3000, 0xFEFF} \<or> (0x2000 \<le> c \<and> c \<le> 0x200A))"

definition str_trim :: "jsstring \<Rightarrow> jsstring" where
  "str_trim s = rev (dropWhile isWhiteSpace (rev (dropWhile isWhiteSpace s)))"

text \<open>
  \<open>FuzzyMatchOptions\<close>: the three optional fields of the interface. A field that is
  absent is \<open>None\<close>; the destructuring defaults \<open>exact = false\<close> and
  \<open>startsWith = false\<close> apply to an absent field. \<open>minScore\<close> is declared and never read.
\<close>

record FuzzyMatchOptions =
  exact :: "bool option"
  startsWith :: "bool option"
  minScore :: "real option"

definition withDefault :: "'a \<Rightarrow> 'a option \<Rightarrow> 'a" where
  "withDefault d x = (case x of None \<Rightarrow> d | Some v \<Rightarrow> v)"

definition fuzzyMatch ::
  "(jsstring \<Rightarrow> jsstring) \<Rightarrow> jsstring \<Rightarrow> jsstring \<Rightarrow> FuzzyMatchOptions \<Rightarrow> bool" where
  "fuzzyMatch unicodeLower target searchTerm options =
     (let exact' = withDefault False (exact options);
          startsWith' = withDefault False (startsWith options);
          normalizedTarget = str_trim (str_toLowerCase unicodeLower target);
          normalizedSearch = str_trim (str_toLowerCase unicodeLower searchTerm)
      in if exact' then normalizedTarget = normalizedSearch
         else if startsWith' then str_startsWith normalizedTarget normalizedSearch
         else str_includes normalizedTarget normalizedSearch)"

text \<open>
  The values a field of an item can hold; only the tag matters to the matcher
  (\<open>typeof fieldValue !== 'string'\<close>). An item is a map from field names to values, and
  a field that is absent reads as \<open>undefined\<close>.
\<close>

datatype jsvalue =
  JString jsstring | JNumber real | JBoolean bool | JNull | JUndefined | JObject

type_synonym item = "string \<rightharpoonup> jsvalue"

text \<open>\<open>Array.prototype.findIndex\<close>: the indices are visited in ascending order.\<close>

fun findIndexFrom :: "('a \<Rightarrow> bool) \<Rightarrow> 'a list \<Rightarrow> nat \<Rightarrow> int" where
  "findIndexFrom P [] k = - 1"
| "findIndexFrom P (x # xs) k = (if P x then int k else findIndexFrom P xs (Suc k))"

definition findIndex :: "('a \<Rightarrow> bool) \<Rightarrow> 'a list \<Rightarrow> int" where
  "findIndex P xs = findIndexFrom P xs 0"

definition fuzzyFindIndex ::
  "(jsstring \<Rightarrow> jsstring) \<Rightarrow> item list \<Rightarrow> string \<Rightarrow> jsstring \<Rightarrow> FuzzyMatchOptions \<Rightarrow> int" where
  "fuzzyFindIndex unicodeLower items nameField searchTerm options =
     findIndex (\<lambda>item.
        (case item nameField of
           Some (JString fieldValue) \<Rightarrow> fuzzyMatch unicodeLower fieldValue searchTerm options
         | _ \<Rightarrow> False)) items"

text \<open>
  An item qualifies when its field holds a string that matches the search term.
\<close>

definition qualifies ::
  "(jsstring \<Rightarrow> jsstring) \<Rightarrow> string \<Rightarrow> jsstring \<Rightarrow> FuzzyMatchOptions \<Rightarrow> item \<Rightarrow> bool" where
  "qualifies unicodeLower nameField searchTerm options it =
     (\<exists>s. it nameField = Some (JString s) \<and> fuzzyMatch unicodeLower s searchTerm options)"

definition defaultOptions :: FuzzyMatchOptions where
  "defaultOptions = \<lparr>exact = None, startsWith = None, minScore = None\<rparr>"

definition meals :: "item list" where
  "meals =
     [[''name'' \<mapsto> JNumber 7], [''name'' \<mapsto> JString (codeUnits ''Colazione'')],
      [''title'' \<mapsto> JString (codeUnits ''Pranzo'')],
      [''name'' \<mapsto> JString (codeUnits '' PRANZO'')],
      [''name'' \<mapsto> JString (codeUnits ''Pranzo'')]]"

section \<open>Results and thrown values\<close>

text \<open>
  \<open>ModificationResult<T>\<close> of the response helpers. An optional field that is absent is
  \<open>None\<close>.
\<close>

record 'u ModificationResult =
  success :: bool
  message :: string
  updated :: "'u option"
  affectedCount :: "nat option"
  error :: "string option"

definition successResult :: "string \<Rightarrow> 'u option \<Rightarrow> nat option \<Rightarrow> 'u ModificationResult" where
  "successResult msg upd cnt =
     \<lparr>success = True, message = msg, updated = upd, affectedCount = cnt, error = None\<rparr>"

text \<open>
  \<open>errorResult\<close> on a string. An \<open>Error\<close> object given to it contributes its
  \<open>message\<close>, which is what \<open>thrown_message\<close> below reads, so a caller holding a thrown
  value passes \<open>thrown_message\<close> of it.
\<close>

definition errorResult :: "string \<Rightarrow> 'u ModificationResult" where
  "errorResult err =
     \<lparr>success = False, message = ''Modification failed'', updated = None,
      affectedCount = None, error = Some err\<rparr>"

text \<open>
  A value that was thrown (or the reason of a rejected promise): an \<open>Error\<close> with its
  message, or any other value with its \<open>String(...)\<close> rendering.
  \<open>thrown_message\<close> is \<open>error instanceof Error ? error.message : String(error)\<close>.
  A call of a supplied function completes with \<open>Inl\<close> of the thrown value or \<open>Inr\<close> of
  the returned one, and passes on the state of everything outside the tool, the world
  \<open>'w\<close> (its stores and services).
\<close>

datatype thrown = JsError string | JsValue string

fun thrown_message :: "thrown \<Rightarrow> string" where
  "thrown_message (JsError m) = m"
| "thrown_message (JsValue s) = s"

section \<open>The agentic tool\<close>

text \<open>
  The two marks that open an outcome line, U+2705 and U+274C, as their UTF-8 bytes.
\<close>

definition check_mark :: string where
  "check_mark = [CHR 0xE2, CHR 0x9C, CHR 0x85]"

definition cross_mark :: string where
  "cross_mark = [CHR 0xE2, CHR 0x9D, CHR 0x8C]"

text \<open>
  The parameters a handler receives, and \<open>ModificationItem\<close>, which adds the action
  name. \<open>'v\<close> is the type of the JSON values; \<open>None\<close> is \<open>undefined\<close>.
\<close>

record 'v HandlerParams =
  target :: "'v option"
  changes :: "'v option"
  newData :: "'v option"

record 'v ModificationItem = "'v HandlerParams" +
  action :: string

text \<open>
  \<open>AgenticActionHandler\<close>. A schema is its \<open>safeParse\<close>: \<open>Inl\<close> of the error message or
  \<open>Inr\<close> of the parsed data. \<open>execute\<close> gets the current entity, the parameters and the
  world; it yields the entity object as its in-place mutations left it, together with
  its completion: thrown, or returned with a new entity (\<open>Some\<close>) or with nothing
  (\<open>None\<close>: \<open>undefined\<close> or \<open>null\<close>). The description and the \<open>newData\<close> schema of a
  handler only feed the declared parameter schema of the tool and are left out.
\<close>

record ('e, 'v, 'w) AgenticActionHandler =
  targetSchema :: "'v option \<Rightarrow> string + 'v option"
  changesSchema :: "('v option \<Rightarrow> string + 'v option) option"
  execute :: "'e \<Rightarrow> 'v HandlerParams \<Rightarrow> 'w \<Rightarrow> ('e \<times> (thrown + 'e option)) \<times> 'w"

datatype validation = VBool bool | VString string

text \<open>
  \<open>AgenticToolConfig\<close>: the fields that \<open>execute\<close> reads. The invocation context is
  handed unchanged to every supplied function and is part of their closures here.
\<close>

record ('e, 'v, 'w) AgenticToolConfig =
  domain :: string
  resolveEntity :: "string \<Rightarrow> 'w \<Rightarrow> (thrown + 'e option) \<times> 'w"
  saveEntity :: "string \<Rightarrow> 'e \<Rightarrow> 'w \<Rightarrow> (thrown + unit) \<times> 'w"
  actions :: "string \<rightharpoonup> ('e, 'v, 'w) AgenticActionHandler"
  beforeSave :: "('e \<Rightarrow> 'w \<Rightarrow> (thrown + 'e) \<times> 'w) option"
  afterSave :: "('e \<Rightarrow> 'w \<Rightarrow> (thrown + unit) \<times> 'w) option"
  validateEntity :: "('e \<Rightarrow> 'w \<Rightarrow> (thrown + validation) \<times> 'w) option"

text \<open>The arguments of \<open>execute\<close>: the entity id, the single modification, the batch.\<close>

record 'v AgenticArgs =
  entityId :: string
  arg_action :: "string option"
  arg_target :: "'v option"
  arg_changes :: "'v option"
  arg_newData :: "'v option"
  batch :: "'v ModificationItem list option"

text \<open>The third argument of the final \<open>successResult\<close>.\<close>

record AgenticSummary =
  summaryEntityId :: string
  modificationsApplied :: nat
  errors :: nat

text \<open>
  Every call of a supplied function is recorded, in order, with the arguments it
  received.
\<close>

datatype 'e call =
    Call_resolveEntity string
  | Call_validateEntity 'e
  | Call_execute string 'e
  | Call_beforeSave 'e
  | Call_saveEntity string 'e
  | Call_afterSave 'e

record ('e, 'w) LoopState =
  currentEntity :: 'e
  results :: "string list"
  world :: 'w
  calls :: "'e call list"

type_synonym ('e, 'w) run =
  "(thrown + AgenticSummary ModificationResult) \<times> 'w \<times> 'e call list"

text \<open>
  Steps 1 and 2: fetch the entity, then validate it when a validator is configured.
  \<open>Inl\<close> is the run that ends here, \<open>Inr\<close> the entity to go on with.
\<close>

definition resolveAndValidate ::
  "('e, 'v, 'w) AgenticToolConfig \<Rightarrow> string \<Rightarrow> 'w \<Rightarrow> ('e, 'w) run + ('e \<times> 'w \<times> 'e call list)" where
  "resolveAndValidate cfg eid w0 =
     (case resolveEntity cfg eid w0 of
        (Inl err, w1) \<Rightarrow> Inl (Inl err, w1, [Call_resolveEntity eid])
      | (Inr None, w1) \<Rightarrow>
          Inl (Inr (errorResult (domain cfg @ '' entity with ID '' @ eid @ '' not found'')),
               w1, [Call_resolveEntity eid])
      | (Inr (Some entity), w1) \<Rightarrow>
          (case validateEntity cfg of
             None \<Rightarrow> Inr (entity, w1, [Call_resolveEntity eid])
           | Some validator \<Rightarrow>
               (case validator entity w1 of
                  (Inl err, w2) \<Rightarrow>
                    Inl (Inl err, w2, [Call_resolveEntity eid, Call_validateEntity entity])
                | (Inr v, w2) \<Rightarrow>
                    if v \<noteq> VBool True
                    then Inl (Inr (errorResult
                                (case v of VString s \<Rightarrow> s | VBool b \<Rightarrow> ''Entity validation failed'')),
                              w2, [Call_resolveEntity eid, Call_validateEntity entity])
                    else Inr (entity, w2, [Call_resolveEntity eid, Call_validateEntity entity]))))"

text \<open>
  Step 3: the batch when it is there and not empty, else the single modification when
  \<open>args.action\<close> is truthy (present and not the empty string), else nothing.
\<close>

definition buildModifications :: "'v AgenticArgs \<Rightarrow> 'v ModificationItem list" where
  "buildModifications args =
     (let single =
            (case arg_action args of
               None \<Rightarrow> []
             | Some a \<Rightarrow>
                 if a = [] then []
                 else [\<lparr>target = arg_target args, changes = arg_changes args,
                        newData = arg_newData args, action = a\<rparr>])
      in case batch args of
           None \<Rightarrow> single
         | Some b \<Rightarrow> if 0 < length b then b else single)"

text \<open>
  Step 4, inside the \<open>try\<close>: the target is parsed, then the changes when the handler has a
  schema for them and the item carries changes (\<open>changes\<close> is declared a record, which is
  truthy whenever it is there). \<open>Inl\<close> is the outcome line of a failed validation, \<open>Inr\<close>
  the parameters for the handler. \<open>safeParse\<close> reports a failure in its value and does not
  throw.
\<close>

definition validateItem ::
  "('e, 'v, 'w) AgenticActionHandler \<Rightarrow> 'v ModificationItem \<Rightarrow> string + 'v HandlerParams" where
  "validateItem handler m =
     (case targetSchema handler (target m) of
        Inl err \<Rightarrow> Inl (cross_mark @ '' Invalid target for '' @ action m @ '': '' @ err)
      | Inr targetData \<Rightarrow>
          (case changesSchema handler of
             None \<Rightarrow> Inr \<lparr>target = targetData, changes = changes m, newData = newData m\<rparr>
           | Some schema \<Rightarrow>
               if changes m = None
               then Inr \<lparr>target = targetData, changes = changes m, newData = newData m\<rparr>
               else (case schema (changes m) of
                       Inl err \<Rightarrow>
                         Inl (cross_mark @ '' Invalid changes for '' @ action m @ '': '' @ err)
                     | Inr changesData \<Rightarrow>
                         Inr \<lparr>target = targetData, changes = changesData,
                              newData = newData m\<rparr>)))"

text \<open>
  The body of the loop over the modifications: one item against the current state. The
  registry \<open>actions\<close> is the map from the action names it was built with (the own
  properties of the object) to their handlers.
\<close>

definition processItem ::
  "(string \<rightharpoonup> ('e, 'v, 'w) AgenticActionHandler) \<Rightarrow> 'v ModificationItem \<Rightarrow>
     ('e, 'w) LoopState \<Rightarrow> ('e, 'w) LoopState" where
  "processItem acts m st =
     (case acts (action m) of
        None \<Rightarrow> st\<lparr>results := results st @ [cross_mark @ '' Unknown action: '' @ action m]\<rparr>
      | Some handler \<Rightarrow>
          (case validateItem handler m of
             Inl line \<Rightarrow> st\<lparr>results := results st @ [line]\<rparr>
           | Inr params \<Rightarrow>
               (case execute handler (currentEntity st) params (world st) of
                  ((mutated, Inl err), w') \<Rightarrow>
                    \<lparr>currentEntity = mutated,
                     results = results st @
                       [cross_mark @ '' '' @ action m @ '' failed: '' @ thrown_message err],
                     world = w',
                     calls = calls st @ [Call_execute (action m) (currentEntity st)]\<rparr>
                | ((mutated, Inr result), w') \<Rightarrow>
                    \<lparr>currentEntity = (case result of None \<Rightarrow> mutated | Some e \<Rightarrow> e),
                     results = results st @ [check_mark @ '' '' @ action m @ '' completed''],
                     world = w',
                     calls = calls st @ [Call_execute (action m) (currentEntity st)]\<rparr>)))"

fun applyModifications ::
  "(string \<rightharpoonup> ('e, 'v, 'w) AgenticActionHandler) \<Rightarrow> 'v ModificationItem list \<Rightarrow>
     ('e, 'w) LoopState \<Rightarrow> ('e, 'w) LoopState" where
  "applyModifications acts [] st = st"
| "applyModifications acts (m # ms) st = applyModifications acts ms (processItem acts m st)"

text \<open>Step 5: the \<open>beforeSave\<close> hook, whose value replaces the current entity.\<close>

definition applyBeforeSave ::
  "('e, 'v, 'w) AgenticToolConfig \<Rightarrow> ('e, 'w) LoopState \<Rightarrow> (thrown + 'e) \<times> 'w \<times> 'e call list" where
  "applyBeforeSave cfg st =
     (case beforeSave cfg of
        None \<Rightarrow> (Inr (currentEntity st), world st, calls st)
      | Some hook \<Rightarrow>
          (case hook (currentEntity st) (world st) of
             (r, w') \<Rightarrow> (r, w', calls st @ [Call_beforeSave (currentEntity st)])))"

text \<open>Step 7: the \<open>afterSave\<close> hook.\<close>

definition applyAfterSave ::
  "('e, 'v, 'w) AgenticToolConfig \<Rightarrow> 'e \<Rightarrow> 'w \<Rightarrow> 'e call list \<Rightarrow> (thrown + unit) \<times> 'w \<times> 'e call list" where
  "applyAfterSave cfg entity w cs =
     (case afterSave cfg of
        None \<Rightarrow> (Inr (), w, cs)
      | Some hook \<Rightarrow> (case hook entity w of (r, w') \<Rightarrow> (r, w', cs @ [Call_afterSave entity])))"

definition successCount :: "string list \<Rightarrow> nat" where
  "successCount rs = length (filter (\<lambda>r. str_startsWith r check_mark) rs)"

definition errorCount :: "string list \<Rightarrow> nat" where
  "errorCount rs = length (filter (\<lambda>r. str_startsWith r cross_mark) rs)"

text \<open>Steps 5 to 8: hooks, the save inside its \<open>try\<close>, and the aggregate result.\<close>

definition persistAndReport ::
  "('e, 'v, 'w) AgenticToolConfig \<Rightarrow> string \<Rightarrow> ('e, 'w) LoopState \<Rightarrow> ('e, 'w) run" where
  "persistAndReport cfg eid st =
     (case applyBeforeSave cfg st of
        (Inl err, w1, cs1) \<Rightarrow> (Inl err, w1, cs1)
      | (Inr entity, w1, cs1) \<Rightarrow>
          (case saveEntity cfg eid entity w1 of
             (Inl err, w2) \<Rightarrow>
               (Inr (errorResult (''Save failed: '' @ thrown_message err)), w2,
                cs1 @ [Call_saveEntity eid entity])
           | (Inr u, w2) \<Rightarrow>
               (case applyAfterSave cfg entity w2 (cs1 @ [Call_saveEntity eid entity]) of
                  (Inl err, w3, cs3) \<Rightarrow> (Inl err, w3, cs3)
                | (Inr u', w3, cs3) \<Rightarrow>
                    (Inr (successResult (str_join [CHR 0x0A] (results st))
                            (Some \<lparr>summaryEntityId = eid,
                                   modificationsApplied = successCount (results st),
                                   errors = errorCount (results st)\<rparr>)
                            None),
                     w3, cs3))))"

text \<open>The \<open>execute\<close> function of the tool that \<open>createAgenticTool\<close> returns.\<close>

definition agentic_execute ::
  "('e, 'v, 'w) AgenticToolConfig \<Rightarrow> 'v AgenticArgs \<Rightarrow> 'w \<Rightarrow> ('e, 'w) run" where
  "agentic_execute cfg args w0 =
     (case resolveAndValidate cfg (entityId args) w0 of
        Inl ended \<Rightarrow> ended
      | Inr (entity, w1, cs1) \<Rightarrow>
          (let modifications = buildModifications args
           in if length modifications = 0
              then (Inr (errorResult
                      ''No modification specified. Provide action+target or batch array.''),
                    w1, cs1)
              else persistAndReport cfg (entityId args)
                     (applyModifications (actions cfg) modifications
                        \<lparr>currentEntity = entity, results = [], world = w1, calls = cs1\<rparr>)))"

text \<open>
  Vocabulary for the statements about a run. \<open>returns\<close> says that a call completed
  without throwing. \<open>loopEntry\<close> is the state in which the loop over the modifications
  starts, when the run gets that far: the entity resolved, the validation passed and at
  least one modification was given. \<open>afterLoop\<close> is the state the loop leaves behind.
  \<open>itemFate\<close> names what happens to one item in a given state.
\<close>

fun isSaveCall :: "'e call \<Rightarrow> bool" where
  "isSaveCall (Call_saveEntity eid e) = True"
| "isSaveCall c = False"

fun isExecuteCall :: "'e call \<Rightarrow> bool" where
  "isExecuteCall (Call_execute a e) = True"
| "isExecuteCall c = False"

fun isFetchCall :: "'e call \<Rightarrow> bool" where
  "isFetchCall (Call_resolveEntity eid) = True"
| "isFetchCall (Call_validateEntity e) = True"
| "isFetchCall c = False"

definition returns :: "(thrown + 'a) \<times> 'w \<Rightarrow> bool" where
  "returns c = (case fst c of Inl err \<Rightarrow> False | Inr v \<Rightarrow> True)"

definition loopEntry ::
  "('e, 'v, 'w) AgenticToolConfig \<Rightarrow> 'v AgenticArgs \<Rightarrow> 'w \<Rightarrow> ('e, 'w) LoopState option" where
  "loopEntry cfg args w0 =
     (case resolveAndValidate cfg (entityId args) w0 of
        Inl ended \<Rightarrow> None
      | Inr (entity, w1, cs1) \<Rightarrow>
          if buildModifications args = [] then None
          else Some \<lparr>currentEntity = entity, results = [], world = w1, calls = cs1\<rparr>)"

definition afterLoop ::
  "('e, 'v, 'w) AgenticToolConfig \<Rightarrow> 'v AgenticArgs \<Rightarrow> 'w \<Rightarrow> ('e, 'w) LoopState option" where
  "afterLoop cfg args w0 =
     map_option (applyModifications (actions cfg) (buildModifications args)) (loopEntry cfg args w0)"

datatype fate = UnknownAction | ValidationFailed string | HandlerThrew thrown | HandlerCompleted

definition itemFate ::
  "(string \<rightharpoonup> ('e, 'v, 'w) AgenticActionHandler) \<Rightarrow> 'v ModificationItem \<Rightarrow>
     ('e, 'w) LoopState \<Rightarrow> fate" where
  "itemFate acts m st =
     (case acts (action m) of
        None \<Rightarrow> UnknownAction
      | Some h \<Rightarrow>
          (case validateItem h m of
             Inl line \<Rightarrow> ValidationFailed line
           | Inr p \<Rightarrow>
               (case snd (fst (execute h (currentEntity st) p (world st))) of
                  Inl err \<Rightarrow> HandlerThrew err
                | Inr r \<Rightarrow> HandlerCompleted)))"

subsection \<open>A small tool to run\<close>

text \<open>
  A workout whose entity is the list of its weights, kept in a store of saved entities
  (the world). \<open>set_weight\<close> wants an index as target and a weight of at most 500 as
  changes, throws \<open>bad weight\<close> on the weight 0 and returns the updated list otherwise;
  \<open>clear\<close> empties the list in place and returns nothing. The store refuses to save
  under the id \<open>frozen\<close>.
\<close>

type_synonym demo_store = "(string \<times> nat list) list"

definition set_weight :: "(nat list, nat, demo_store) AgenticActionHandler" where
  "set_weight =
     \<lparr>targetSchema = (\<lambda>t. case t of None \<Rightarrow> Inl ''Required'' | Some i \<Rightarrow> Inr (Some i)),
      changesSchema = Some (\<lambda>c. case c of None \<Rightarrow> Inl ''Required''
                                | Some v \<Rightarrow> if v \<le> 500 then Inr (Some v) else Inl ''Too big''),
      execute = (\<lambda>e p w.
         case (target p, changes p) of
           (Some i, Some v) \<Rightarrow>
             if v = 0 then ((e, Inl (JsError ''bad weight'')), w)
             else ((e, Inr (Some (e[i := v]))), w)
         | _ \<Rightarrow> ((e, Inl (JsValue ''nothing to set'')), w))\<rparr>"

definition clear :: "(nat list, nat, demo_store) AgenticActionHandler" where
  "clear =
     \<lparr>targetSchema = (\<lambda>t. Inr t),
      changesSchema = None,
      execute = (\<lambda>e p w. (([], Inr None), w))\<rparr>"

definition demoConfig :: "(nat list, nat, demo_store) AgenticToolConfig" where
  "demoConfig =
     \<lparr>domain = ''workout'',
      resolveEntity = (\<lambda>eid w. (Inr (map_of w eid), w)),
      saveEntity = (\<lambda>eid e w.
         if eid = ''frozen'' then (Inl (JsError ''store is read-only''), w)
         else (Inr (), (eid, e) # w)),
      actions = [''set_weight'' \<mapsto> set_weight, ''clear'' \<mapsto> clear],
      beforeSave = None,
      afterSave = None,
      validateEntity = None\<rparr>"

definition demoStore :: demo_store where
  "demoStore = [(''p1'', [60, 80, 100]), (''frozen'', [10])]"

definition demoState :: "(nat list, demo_store) LoopState" where
  "demoState =
     \<lparr>currentEntity = [60, 80, 100], results = [], world = demoStore,
      calls = [Call_resolveEntity ''p1'']\<rparr>"

definition modification :: "string \<Rightarrow> nat option \<Rightarrow> nat option \<Rightarrow> nat ModificationItem" where
  "modification a t c = \<lparr>target = t, changes = c, newData = None, action = a\<rparr>"

definition batchArgs :: "string \<Rightarrow> nat ModificationItem list \<Rightarrow> nat AgenticArgs" where
  "batchArgs eid b =
     \<lparr>entityId = eid, arg_action = None, arg_target = None, arg_changes = None,
      arg_newData = None, batch = Some b\<rparr>"

text \<open>One item for each way an item can end.\<close>

definition fiveFates :: "nat ModificationItem list" where
  "fiveFates =
     [modification ''rename'' (Some 0) None,
      modification ''set_weight'' None (Some 70),
      modification ''set_weight'' (Some 0) (Some 2000),
      modification ''set_weight'' (Some 0) (Some 0),
      modification ''set_weight'' (Some 1) (Some 90)]"

text \<open>
  \<open>savesCleanly\<close>: from the state the loop left, the \<open>beforeSave\<close> hook (when there is
  one) returns, \<open>saveEntity\<close> returns and the \<open>afterSave\<close> hook (when there is one)
  returns.
\<close>

definition savesCleanly ::
  "('e, 'v, 'w) AgenticToolConfig \<Rightarrow> string \<Rightarrow> ('e, 'w) LoopState \<Rightarrow> bool" where
  "savesCleanly cfg eid st =
     (case applyBeforeSave cfg st of
        (Inl err, w1, cs1) \<Rightarrow> False
      | (Inr e, w1, cs1) \<Rightarrow>
          (case saveEntity cfg eid e w1 of
             (Inl err, w2) \<Rightarrow> False
           | (Inr u, w2) \<Rightarrow> returns (applyAfterSave cfg e w2 (cs1 @ [Call_saveEntity eid e]))))"

text \<open>
  Further runs of the small tool: three items of which the second throws, a batch of
  unknown actions, a configuration with all three hooks, and three configurations in
  which one supplied function throws.
\<close>

definition threeItems :: "nat ModificationItem list" where
  "threeItems =
     [modification ''set_weight'' (Some 0) (Some 70),
      modification ''set_weight'' (Some 1) (Some 0),
      modification ''set_weight'' (Some 2) (Some 110)]"

definition unknownItems :: "nat ModificationItem list" where
  "unknownItems = [modification ''rename'' None None, modification ''swap'' (Some 1) None]"

definition hookedConfig :: "(nat list, nat, demo_store) AgenticToolConfig" where
  "hookedConfig =
     demoConfig
       \<lparr>beforeSave := Some (\<lambda>e w. (Inr (e @ [0]), w)),
        afterSave := Some (\<lambda>e w. (Inr (), w)),
        validateEntity :=
          Some (\<lambda>e w. (Inr (if e = [10] then VString ''program is frozen'' else VBool True), w))\<rparr>"

definition resolveThrows :: "(nat list, nat, demo_store) AgenticToolConfig" where
  "resolveThrows = demoConfig\<lparr>resolveEntity := (\<lambda>eid w. (Inl (JsError ''connection lost''), w))\<rparr>"

definition beforeSaveThrows :: "(nat list, nat, demo_store) AgenticToolConfig" where
  "beforeSaveThrows = demoConfig\<lparr>beforeSave := Some (\<lambda>e w. (Inl (JsError ''hook failed''), w))\<rparr>"

definition afterSaveThrows :: "(nat list, nat, demo_store) AgenticToolConfig" where
  "afterSaveThrows = demoConfig\<lparr>afterSave := Some (\<lambda>e w. (Inl (JsValue ''notify failed''), w))\<rparr>"

definition noArgs :: "string \<Rightarrow> nat AgenticArgs" where
  "noArgs eid =
     \<lparr>entityId = eid, arg_action = None, arg_target = None, arg_changes = None,
      arg_newData = None, batch = Some []\<rparr>"

section \<open>The CRUD tool\<close>

text \<open>
  \<open>BatchOperationItem\<close>: the operation and the two optional records, each a map from
  field names to values. The handler of a batch item receives
  \<open>{...item.target, ...item.data}\<close>: the fields of the target, overridden by those of the
  data, where spreading an absent record adds nothing.
\<close>

record 'v BatchOperationItem =
  operation :: string
  item_target :: "(string \<rightharpoonup> 'v) option"
  item_data :: "(string \<rightharpoonup> 'v) option"

definition spread :: "(string \<rightharpoonup> 'v) option \<Rightarrow> (string \<rightharpoonup> 'v)" where
  "spread r = (case r of None \<Rightarrow> Map.empty | Some f \<Rightarrow> f)"

definition handlerInput :: "'v BatchOperationItem \<Rightarrow> (string \<rightharpoonup> 'v)" where
  "handlerInput it = spread (item_target it) ++ spread (item_data it)"

text \<open>
  A \<open>CrudHandler\<close> gets its arguments and the world, and completes with a thrown value
  or with a \<open>ModificationResult\<close>.
\<close>

type_synonym ('v, 'u, 'w) CrudHandler =
  "(string \<rightharpoonup> 'v) \<Rightarrow> 'w \<Rightarrow> (thrown + 'u ModificationResult) \<times> 'w"

text \<open>
  The \<open>handlers\<close> of a configuration are a JavaScript object, and \<open>handlers[name]\<close> is a
  property lookup: it finds an own property of the object, and otherwise a property the
  object inherits through its prototype chain. For an object written as a literal these
  are the members of \<open>Object.prototype\<close> (\<open>constructor\<close>, \<open>toString\<close>, \<open>hasOwnProperty\<close>
  and the others), which the lookup finds under their names like any registered handler.
  Whatever the lookup finds is called as a handler; a property is given here by what
  such a call does.
\<close>

record 'p js_object =
  ownProperties :: "string \<rightharpoonup> 'p"
  inheritedProperties :: "string \<rightharpoonup> 'p"

definition getProperty :: "'p js_object \<Rightarrow> string \<Rightarrow> 'p option" where
  "getProperty obj name =
     (case ownProperties obj name of
        Some p \<Rightarrow> Some p
      | None \<Rightarrow> inheritedProperties obj name)"



text \<open>
  What the \<open>updated\<close> field of the result of \<open>execute\<close> holds: the messages of a completed
  batch (\<open>{ results }\<close>), or what the handler of a single operation put there.
\<close>

datatype 'u crud_updated = BatchResults "string list" | HandlerUpdated 'u


text \<open>
  The loop over the batch. It ends with a thrown value (\<open>Inl\<close>: the handler call is not
  inside a \<open>try\<close>), with the result of an early \<open>return\<close> (\<open>Inr (Inl r)\<close>) or, all items
  done, with the collected messages (\<open>Inr (Inr results)\<close>). The operations whose handler
  was called are recorded in order. \<open>${result.error}\<close> of an absent error prints
  \<open>undefined\<close>.
\<close>

fun crudBatchLoop ::
  "('v, 'u, 'w) CrudHandler js_object \<Rightarrow> 'v BatchOperationItem list \<Rightarrow> string list \<Rightarrow>
     'w \<Rightarrow> string list \<Rightarrow>
     (thrown + ('u crud_updated ModificationResult + string list)) \<times> 'w \<times> string list" where
  "crudBatchLoop hs [] rs w cs = (Inr (Inr rs), w, cs)"
| "crudBatchLoop hs (it # its) rs w cs =
     (case getProperty hs (operation it) of
        None \<Rightarrow> (Inr (Inl (errorResult (''Unknown operation in batch: '' @ operation it))), w, cs)
      | Some handler \<Rightarrow>
          (case handler (handlerInput it) w of
             (Inl err, w') \<Rightarrow> (Inl err, w', cs @ [operation it])
           | (Inr result, w') \<Rightarrow>
               if \<not> success result
               then (Inr (Inl (errorResult
                       (''Batch failed at operation '' @ operation it @ '': '' @
                        (case error result of None \<Rightarrow> ''undefined'' | Some e \<Rightarrow> e)))),
                     w', cs @ [operation it])
               else crudBatchLoop hs its (rs @ [message result]) w' (cs @ [operation it])))"


subsection \<open>A small CRUD tool to run\<close>




section \<open>The modification service\<close>

text \<open>
  The store is an external collaborator. Its rows, and the data objects handed to it,
  are objects: lists of properties, where a property that is absent reads as
  \<open>undefined\<close>. \<open>'j\<close> is the type of the JSON documents a column can hold.
\<close>

datatype 'j cell = VStr string | VNum int | VJson 'j | VNull

type_synonym 'j object = "(string \<times> 'j cell) list"

definition property :: "'j object \<Rightarrow> string \<Rightarrow> 'j cell option" where
  "property obj k = map_of obj k"

text \<open>
  An object literal handed to the store: a property whose value is \<open>undefined\<close> is not
  part of the data.
\<close>

definition object :: "(string \<times> 'j cell option) list \<Rightarrow> 'j object" where
  "object ps = concat (map (\<lambda>(k, v). case v of None \<Rightarrow> [] | Some x \<Rightarrow> [(k, x)]) ps)"

datatype table =
  Nutrition_plans | Nutrition_plan_versions | Workout_programs | Workout_program_versions

text \<open>
  The database: four tables, each the list of its rows in the order of insertion, and
  the journal of the statements whose effect is visible.
\<close>

datatype statement = Created table | Updated table string

record 'j db =
  nutrition_plans :: "'j object list"
  nutrition_plan_versions :: "'j object list"
  workout_programs :: "'j object list"
  workout_program_versions :: "'j object list"
  journal :: "statement list"

fun rows :: "table \<Rightarrow> 'j db \<Rightarrow> 'j object list" where
  "rows Nutrition_plans d = nutrition_plans d"
| "rows Nutrition_plan_versions d = nutrition_plan_versions d"
| "rows Workout_programs d = workout_programs d"
| "rows Workout_program_versions d = workout_program_versions d"

fun set_rows :: "table \<Rightarrow> 'j object list \<Rightarrow> 'j db \<Rightarrow> 'j db" where
  "set_rows Nutrition_plans rs d = d\<lparr>nutrition_plans := rs\<rparr>"
| "set_rows Nutrition_plan_versions rs d = d\<lparr>nutrition_plan_versions := rs\<rparr>"
| "set_rows Workout_programs rs d = d\<lparr>workout_programs := rs\<rparr>"
| "set_rows Workout_program_versions rs d = d\<lparr>workout_program_versions := rs\<rparr>"

text \<open>
  The contract of the store client, as the service relies on it. \<open>findUnique\<close> reads
  the row with the given id. \<open>create\<close> appends a row and fails on an id that is taken.
  \<open>update\<close> overwrites the given columns of the row with the given id, adds the
  increments to its numeric columns, and fails when there is no such row. Any statement
  can also fail for a reason of the store's own (\<open>fault\<close>). \<open>$transaction\<close> runs its
  callback on the database and makes the writes visible only when the callback
  completes: when it throws, the database is as it was.
\<close>

definition hasId :: "string \<Rightarrow> 'j object \<Rightarrow> bool" where
  "hasId i r = (property r ''id'' = Some (VStr i))"

definition findUnique :: "table \<Rightarrow> string \<Rightarrow> 'j db \<Rightarrow> 'j object option" where
  "findUnique t i d = find (hasId i) (rows t d)"

definition tx_create ::
  "(statement \<Rightarrow> thrown option) \<Rightarrow> table \<Rightarrow> 'j object \<Rightarrow> 'j db \<Rightarrow> thrown + 'j db" where
  "tx_create fault t obj d =
     (case fault (Created t) of
        Some err \<Rightarrow> Inl err
      | None \<Rightarrow>
          if find (\<lambda>r. property r ''id'' = property obj ''id'') (rows t d) \<noteq> None
          then Inl (JsError ''Unique constraint failed on the fields: (id)'')
          else Inr ((set_rows t (rows t d @ [obj]) d)\<lparr>journal := journal d @ [Created t]\<rparr>))"

fun increment :: "(string \<times> int) list \<Rightarrow> 'j object \<Rightarrow> 'j object" where
  "increment [] r = r"
| "increment ((k, n) # incs) r =
     increment incs (case property r k of Some (VNum v) \<Rightarrow> AList.update k (VNum (v + n)) r | _ \<Rightarrow> r)"

definition tx_update ::
  "(statement \<Rightarrow> thrown option) \<Rightarrow> table \<Rightarrow> string \<Rightarrow> 'j object \<Rightarrow> (string \<times> int) list \<Rightarrow>
     'j db \<Rightarrow> thrown + 'j db" where
  "tx_update fault t i obj incs d =
     (case fault (Updated t i) of
        Some err \<Rightarrow> Inl err
      | None \<Rightarrow>
          (case findUnique t i d of
             None \<Rightarrow> Inl (JsError ''Record to update not found'')
           | Some found \<Rightarrow>
               Inr ((set_rows t
                       (map (\<lambda>r. if hasId i r then increment incs (AList.merge r obj) else r)
                          (rows t d)) d)
                    \<lparr>journal := journal d @ [Updated t i]\<rparr>)))"

definition transaction :: "('j db \<Rightarrow> thrown + 'j db) \<Rightarrow> 'j db \<Rightarrow> (thrown + unit) \<times> 'j db" where
  "transaction body d = (case body d of Inl err \<Rightarrow> (Inl err, d) | Inr d' \<Rightarrow> (Inr (), d'))"

text \<open>
  What the service imports from other packages. \<open>createId\<close> is the id it delivers in
  this run; the two JSON conversions are applied to a property that may be absent;
  \<open>storeFault\<close> is the store's answer to a statement. \<open>nutritionPersistenceData\<close> stands
  for lines 86 to 156 of \<open>modifyNutritionDay\<close> (normalising the plan, locating and
  replacing the day, \<open>preparePlanForPersistence\<close>), and \<open>workoutPersistenceData\<close> for lines
  226 to 274 of \<open>modifyWorkoutWeek\<close>: this part works on the row that was read and on the
  parameters, writes nothing, and either throws or yields the persistence data.
  \<open>normalizeNutritionPlan\<close> and \<open>normalizeWorkoutProgram\<close> are applied to the row that is
  read back at the end.
\<close>

record ('j, 'day, 'week, 'plan, 'program) ServiceDeps =
  createId :: string
  toPrismaJsonValue :: "'j cell option \<Rightarrow> 'j cell option"
  toNullablePrismaJsonValue :: "'j cell option \<Rightarrow> 'j cell option"
  storeFault :: "statement \<Rightarrow> thrown option"
  nutritionPersistenceData :: "'j object \<Rightarrow> int \<Rightarrow> 'day \<Rightarrow> thrown + 'j object"
  normalizeNutritionPlan :: "'j object \<Rightarrow> thrown + 'plan"
  workoutPersistenceData :: "'j object \<Rightarrow> int \<Rightarrow> 'week \<Rightarrow> string \<Rightarrow> thrown + 'j object"
  normalizeWorkoutProgram :: "'j object \<Rightarrow> thrown + 'program"

record ServiceParams =
  userId :: string

record 'day ModifyNutritionDayParams = ServiceParams +
  planId :: string
  dayNumber :: int
  modifiedDayData :: 'day

record 'week ModifyWorkoutWeekParams = ServiceParams +
  programId :: string
  weekNumber :: int
  modifiedWeekData :: 'week

text \<open>The data of the snapshot that \<open>modifyNutritionDay\<close> creates, and of its update.\<close>

definition nutritionSnapshot ::
  "('j, 'day, 'week, 'plan, 'program) ServiceDeps \<Rightarrow> 'j object \<Rightarrow> string \<Rightarrow> 'j object" where
  "nutritionSnapshot deps planToUpdate uid =
     object
       [(''id'', Some (VStr (createId deps))),
        (''planId'', property planToUpdate ''id''),
        (''version'', property planToUpdate ''version''),
        (''name'', property planToUpdate ''name''),
        (''description'', property planToUpdate ''description''),
        (''goals'', property planToUpdate ''goals''),
        (''durationWeeks'', property planToUpdate ''durationWeeks''),
        (''targetMacros'', toPrismaJsonValue deps (property planToUpdate ''targetMacros'')),
        (''weeks'', toPrismaJsonValue deps (property planToUpdate ''weeks'')),
        (''restrictions'', property planToUpdate ''restrictions''),
        (''preferences'', property planToUpdate ''preferences''),
        (''status'', property planToUpdate ''status''),
        (''metadata'', toNullablePrismaJsonValue deps (property planToUpdate ''metadata'')),
        (''createdBy'', Some (VStr uid))]"

definition nutritionUpdate ::
  "('j, 'day, 'week, 'plan, 'program) ServiceDeps \<Rightarrow> 'j object \<Rightarrow> 'j object" where
  "nutritionUpdate deps persistenceData =
     object
       [(''name'', property persistenceData ''name''),
        (''description'', property persistenceData ''description''),
        (''goals'', property persistenceData ''goals''),
        (''durationWeeks'', property persistenceData ''durationWeeks''),
        (''targetMacros'', toPrismaJsonValue deps (property persistenceData ''targetMacros'')),
        (''weeks'', toPrismaJsonValue deps (property persistenceData ''weeks'')),
        (''restrictions'', property persistenceData ''restrictions''),
        (''preferences'', property persistenceData ''preferences''),
        (''status'', property persistenceData ''status''),
        (''metadata'', toNullablePrismaJsonValue deps (property persistenceData ''metadata''))]"

text \<open>
  \<open>ModificationService.modifyNutritionDay\<close>: the outcome (thrown, or the normalised plan
  that is returned) and the database afterwards.
\<close>

definition modifyNutritionDay ::
  "('j, 'day, 'week, 'plan, 'program) ServiceDeps \<Rightarrow> 'day ModifyNutritionDayParams \<Rightarrow> 'j db \<Rightarrow>
     (thrown + 'plan) \<times> 'j db" where
  "modifyNutritionDay deps params d =
     (case findUnique Nutrition_plans (planId params) d of
        None \<Rightarrow> (Inl (JsError ''Plan not found''), d)
      | Some planToUpdate \<Rightarrow>
          if property planToUpdate ''userId'' \<noteq> Some (VStr (userId params))
          then (Inl (JsError ''Unauthorized: Plan does not belong to user''), d)
          else
            (case nutritionPersistenceData deps planToUpdate (dayNumber params)
                    (modifiedDayData params) of
               Inl err \<Rightarrow> (Inl err, d)
             | Inr persistenceData \<Rightarrow>
                 (case transaction (\<lambda>tx.
                         case tx_create (storeFault deps) Nutrition_plan_versions
                                (nutritionSnapshot deps planToUpdate (userId params)) tx of
                           Inl err \<Rightarrow> Inl err
                         | Inr tx' \<Rightarrow>
                             tx_update (storeFault deps) Nutrition_plans (planId params)
                               (nutritionUpdate deps persistenceData) [(''version'', 1)] tx') d of
                    (Inl err, d') \<Rightarrow> (Inl err, d')
                  | (Inr u, d') \<Rightarrow>
                      (case findUnique Nutrition_plans (planId params) d' of
                         None \<Rightarrow> (Inl (JsError ''Failed to load updated plan''), d')
                       | Some updatedPlan \<Rightarrow>
                           (case normalizeNutritionPlan deps updatedPlan of
                              Inl err \<Rightarrow> (Inl err, d')
                            | Inr plan \<Rightarrow> (Inr plan, d'))))))"

text \<open>The data of the snapshot that \<open>modifyWorkoutWeek\<close> creates, and of its update.\<close>

definition workoutSnapshot ::
  "('j, 'day, 'week, 'plan, 'program) ServiceDeps \<Rightarrow> 'j object \<Rightarrow> string \<Rightarrow> 'j object" where
  "workoutSnapshot deps programToUpdate uid =
     object
       [(''id'', Some (VStr (createId deps))),
        (''programId'', property programToUpdate ''id''),
        (''version'', property programToUpdate ''version''),
        (''name'', property programToUpdate ''name''),
        (''description'', property programToUpdate ''description''),
        (''difficulty'', property programToUpdate ''difficulty''),
        (''durationWeeks'', property programToUpdate ''durationWeeks''),
        (''goals'', property programToUpdate ''goals''),
        (''status'', property programToUpdate ''status''),
        (''weeks'', toPrismaJsonValue deps (property programToUpdate ''weeks'')),
        (''metadata'', toNullablePrismaJsonValue deps (property programToUpdate ''metadata'')),
        (''createdBy'', Some (VStr uid))]"

definition workoutUpdate ::
  "('j, 'day, 'week, 'plan, 'program) ServiceDeps \<Rightarrow> 'j object \<Rightarrow> 'j object" where
  "workoutUpdate deps persistenceData =
     object
       [(''name'', property persistenceData ''name''),
        (''description'', property persistenceData ''description''),
        (''difficulty'', property persistenceData ''difficulty''),
        (''durationWeeks'', property persistenceData ''durationWeeks''),
        (''goals'', property persistenceData ''goals''),
        (''weeks'', toPrismaJsonValue deps (property persistenceData ''weeks'')),
        (''status'', property persistenceData ''status''),
        (''metadata'', toNullablePrismaJsonValue deps (property persistenceData ''metadata''))]"

text \<open>\<open>ModificationService.modifyWorkoutWeek\<close>.\<close>

definition modifyWorkoutWeek ::
  "('j, 'day, 'week, 'plan, 'program) ServiceDeps \<Rightarrow> 'week ModifyWorkoutWeekParams \<Rightarrow> 'j db \<Rightarrow>
     (thrown + 'program) \<times> 'j db" where
  "modifyWorkoutWeek deps params d =
     (case findUnique Workout_programs (programId params) d of
        None \<Rightarrow> (Inl (JsError ''Program not found''), d)
      | Some programToUpdate \<Rightarrow>
          if property programToUpdate ''userId'' \<noteq> Some (VStr (userId params))
          then (Inl (JsError ''Unauthorized: Program does not belong to user''), d)
          else
            (case workoutPersistenceData deps programToUpdate (weekNumber params)
                    (modifiedWeekData params) (userId params) of
               Inl err \<Rightarrow> (Inl err, d)
             | Inr persistenceData \<Rightarrow>
                 (case transaction (\<lambda>tx.
                         case tx_create (storeFault deps) Workout_program_versions
                                (workoutSnapshot deps programToUpdate (userId params)) tx of
                           Inl err \<Rightarrow> Inl err
                         | Inr tx' \<Rightarrow>
                             tx_update (storeFault deps) Workout_programs (programId params)
                               (workoutUpdate deps persistenceData) [(''version'', 1)] tx') d of
                    (Inl err, d') \<Rightarrow> (Inl err, d')
                  | (Inr u, d') \<Rightarrow>
                      (case findUnique Workout_programs (programId params) d' of
                         None \<Rightarrow> (Inl (JsError ''Failed to load updated program''), d')
                       | Some updatedProgram \<Rightarrow>
                           (case normalizeWorkoutProgram deps updatedProgram of
                              Inl err \<Rightarrow> (Inl err, d')
                            | Inr program \<Rightarrow> (Inr program, d'))))))"

subsection \<open>A small store to run\<close>

text \<open>
  One nutrition plan at version 3 and one workout program at version 7, both of user
  \<open>u1\<close>. JSON documents are strings here; the conversions are the identity; the
  persistence data is the row with the new weeks. In \<open>updateFails\<close> the store refuses
  every update statement.
\<close>

definition demoDb :: "string db" where
  "demoDb =
     \<lparr>nutrition_plans =
        [[(''id'', VStr ''plan1''), (''userId'', VStr ''u1''), (''version'', VNum 3),
          (''name'', VStr ''Cut''), (''weeks'', VJson ''old days''),
          (''status'', VStr ''ACTIVE'')]],
      nutrition_plan_versions = [],
      workout_programs =
        [[(''id'', VStr ''prog1''), (''userId'', VStr ''u1''), (''version'', VNum 7),
          (''name'', VStr ''Strength''), (''weeks'', VJson ''old weeks'')]],
      workout_program_versions = [],
      journal = []\<rparr>"

definition demoDeps :: "(string, string, string, string object, string object) ServiceDeps" where
  "demoDeps =
     \<lparr>createId = ''v1'',
      toPrismaJsonValue = (\<lambda>v. v),
      toNullablePrismaJsonValue = (\<lambda>v. v),
      storeFault = (\<lambda>s. None),
      nutritionPersistenceData = (\<lambda>row n day. Inr (AList.update ''weeks'' (VJson day) row)),
      normalizeNutritionPlan = (\<lambda>row. Inr row),
      workoutPersistenceData = (\<lambda>row n week uid. Inr (AList.update ''weeks'' (VJson week) row)),
      normalizeWorkoutProgram = (\<lambda>row. Inr row)\<rparr>"

definition updateFails :: "(string, string, string, string object, string object) ServiceDeps" where
  "updateFails =
     demoDeps\<lparr>storeFault :=
       (\<lambda>s. case s of Created t \<Rightarrow> None | Updated t i \<Rightarrow> Some (JsError ''connection lost''))\<rparr>"

definition dayParams :: "string ModifyNutritionDayParams" where
  "dayParams = \<lparr>userId = ''u1'', planId = ''plan1'', dayNumber = 2, modifiedDayData = ''new days''\<rparr>"

definition weekParams :: "string ModifyWorkoutWeekParams" where
  "weekParams =
     \<lparr>userId = ''u1'', programId = ''prog1'', weekNumber = 1, modifiedWeekData = ''new weeks''\<rparr>"

section \<open>Properties of the string functions\<close>

lemma str_startsWith_prefix: "str_startsWith s p \<longleftrightarrow> prefix p s"
  by (auto simp: str_startsWith_def prefix_def take_is_prefix dest: prefix_length_le)
     (metis append_eq_conv_conj)

lemma stringIndexOf_none:
  "stringIndexOf s p i = - 1 \<longleftrightarrow>
     (\<forall>k. i \<le> k \<and> k + length p \<le> length s \<longrightarrow> take (length p) (drop k s) \<noteq> p)"
proof (induction s p i rule: stringIndexOf.induct)
  case (1 s p i)
  show ?case
  proof (cases "length s < i + length p")
    case True
    then show ?thesis by (subst stringIndexOf.simps) auto
  next
    case fits: False
    show ?thesis
    proof (cases "take (length p) (drop i s) = p")
      case True
      with fits show ?thesis by (subst stringIndexOf.simps) auto
    next
      case False
      have "stringIndexOf s p i = stringIndexOf s p (Suc i)"
        using fits False by (subst stringIndexOf.simps) simp
      moreover have
        "(\<forall>k. i \<le> k \<and> k + length p \<le> length s \<longrightarrow> take (length p) (drop k s) \<noteq> p) \<longleftrightarrow>
         (\<forall>k. Suc i \<le> k \<and> k + length p \<le> length s \<longrightarrow> take (length p) (drop k s) \<noteq> p)"
        using False by (metis Suc_leD Suc_leI le_neq_implies_less)
      ultimately show ?thesis using 1 fits False by simp
    qed
  qed
qed

lemma sublist_iff_take_drop:
  "sublist p s \<longleftrightarrow> (\<exists>k. k + length p \<le> length s \<and> take (length p) (drop k s) = p)"
proof
  assume "sublist p s"
  then obtain ps ss where "s = ps @ p @ ss" by (auto simp: sublist_def)
  then have "length ps + length p \<le> length s \<and> take (length p) (drop (length ps) s) = p"
    by simp
  then show "\<exists>k. k + length p \<le> length s \<and> take (length p) (drop k s) = p" by blast
next
  assume "\<exists>k. k + length p \<le> length s \<and> take (length p) (drop k s) = p"
  then obtain k where k: "k + length p \<le> length s" "take (length p) (drop k s) = p" by blast
  have "s = take k s @ take (length p) (drop k s) @ drop (length p) (drop k s)"
    by (simp only: append_take_drop_id)
  with k show "sublist p s" unfolding sublist_def by metis
qed

lemma str_includes_sublist: "str_includes s p \<longleftrightarrow> sublist p s"
  by (simp add: str_includes_def stringIndexOf_none sublist_iff_take_drop)

lemma str_includes_empty: "str_includes s []"
  by (simp add: str_includes_sublist)

lemma str_startsWith_empty: "str_startsWith s []"
  by (simp add: str_startsWith_def)

lemma normalized_empty: "str_trim (str_toLowerCase unicodeLower []) = []"
  by (simp add: str_trim_def str_toLowerCase_def)

section \<open>Properties of the fuzzy matcher\<close>

text \<open>
  Claim C8. \<open>fuzzyMatch\<close> has exactly three modes, all on the lowercased and trimmed
  strings: with \<open>exact\<close> set it is their equality, otherwise with \<open>startsWith\<close> set it is
  "the normalized term is a prefix of the normalized target", otherwise it is "the
  normalized term occurs in the normalized target as a contiguous block". The four
  examples of the specification evaluate as it says, and the empty term matches every
  target in the prefix and the containment mode. All of this holds whatever the tables
  of the engine are.
\<close>

theorem fuzzyMatch_three_modes:
  "(exact opts = Some True \<longrightarrow>
      fuzzyMatch unicodeLower t s opts =
        (str_trim (str_toLowerCase unicodeLower t) = str_trim (str_toLowerCase unicodeLower s)))
   \<and> (exact opts \<noteq> Some True \<and> startsWith opts = Some True \<longrightarrow>
      fuzzyMatch unicodeLower t s opts =
        prefix (str_trim (str_toLowerCase unicodeLower s)) (str_trim (str_toLowerCase unicodeLower t)))
   \<and> (exact opts \<noteq> Some True \<and> startsWith opts \<noteq> Some True \<longrightarrow>
      fuzzyMatch unicodeLower t s opts =
        sublist (str_trim (str_toLowerCase unicodeLower s)) (str_trim (str_toLowerCase unicodeLower t)))
   \<and> fuzzyMatch unicodeLower (codeUnits ''  Colazione '') (codeUnits ''cola'')
        \<lparr>exact = None, startsWith = None, minScore = None\<rparr>
   \<and> \<not> fuzzyMatch unicodeLower (codeUnits ''Pranzo'') (codeUnits ''cena'')
        \<lparr>exact = None, startsWith = None, minScore = None\<rparr>
   \<and> fuzzyMatch unicodeLower (codeUnits ''Design'') (codeUnits ''design'')
        \<lparr>exact = Some True, startsWith = None, minScore = None\<rparr>
   \<and> \<not> fuzzyMatch unicodeLower (codeUnits ''Designs'') (codeUnits ''design'')
        \<lparr>exact = Some True, startsWith = None, minScore = None\<rparr>
   \<and> (exact opts \<noteq> Some True \<longrightarrow> fuzzyMatch unicodeLower t [] opts)"
proof (intro conjI impI)
  show "fuzzyMatch unicodeLower t s opts =
        (str_trim (str_toLowerCase unicodeLower t) = str_trim (str_toLowerCase unicodeLower s))"
    if "exact opts = Some True"
    using that by (simp add: fuzzyMatch_def withDefault_def)
  show "fuzzyMatch unicodeLower t s opts =
        prefix (str_trim (str_toLowerCase unicodeLower s)) (str_trim (str_toLowerCase unicodeLower t))"
    if "exact opts \<noteq> Some True \<and> startsWith opts = Some True"
    using that
    by (cases "exact opts") (auto simp: fuzzyMatch_def withDefault_def str_startsWith_prefix)
  show "fuzzyMatch unicodeLower t s opts =
        sublist (str_trim (str_toLowerCase unicodeLower s)) (str_trim (str_toLowerCase unicodeLower t))"
    if "exact opts \<noteq> Some True \<and> startsWith opts \<noteq> Some True"
    using that
    by (cases "exact opts"; cases "startsWith opts")
       (auto simp: fuzzyMatch_def withDefault_def str_includes_sublist)
  show "fuzzyMatch unicodeLower (codeUnits ''  Colazione '') (codeUnits ''cola'')
        \<lparr>exact = None, startsWith = None, minScore = None\<rparr>"
    by code_simp
  show "\<not> fuzzyMatch unicodeLower (codeUnits ''Pranzo'') (codeUnits ''cena'')
        \<lparr>exact = None, startsWith = None, minScore = None\<rparr>"
    by code_simp
  show "fuzzyMatch unicodeLower (codeUnits ''Design'') (codeUnits ''design'')
        \<lparr>exact = Some True, startsWith = None, minScore = None\<rparr>"
    by code_simp
  show "\<not> fuzzyMatch unicodeLower (codeUnits ''Designs'') (codeUnits ''design'')
        \<lparr>exact = Some True, startsWith = None, minScore = None\<rparr>"
    by code_simp
  show "fuzzyMatch unicodeLower t [] opts" if "exact opts \<noteq> Some True"
    using that
    by (cases "exact opts")
       (auto simp: fuzzyMatch_def withDefault_def normalized_empty str_includes_empty
          str_startsWith_empty)
qed

text \<open>
  The three modes at \<open>Designs\<close>, whatever the tables of the engine: the exact mode (which
  wins over \<open>startsWith\<close> when both are set) rejects \<open>DESIGN\<close>, the prefix mode accepts it
  and rejects \<open>SIGN\<close>, the default mode accepts \<open>SIGN\<close> and the empty term. Beyond ASCII:
  \<open>CAF\<close> with a capital E acute, between two no-break spaces, matches \<open>caf\<close> with a
  small e acute exactly.
\<close>

theorem fuzzyMatch_three_modes_witness:
  "\<forall>unicodeLower.
     \<not> fuzzyMatch unicodeLower (codeUnits ''Designs'') (codeUnits '' DESIGN'')
         \<lparr>exact = Some True, startsWith = Some True, minScore = None\<rparr>
     \<and> fuzzyMatch unicodeLower (codeUnits ''Designs'') (codeUnits '' DESIGN'')
         \<lparr>exact = Some False, startsWith = Some True, minScore = None\<rparr>
     \<and> \<not> fuzzyMatch unicodeLower (codeUnits ''Designs'') (codeUnits ''SIGN'')
         \<lparr>exact = Some False, startsWith = Some True, minScore = None\<rparr>
     \<and> fuzzyMatch unicodeLower (codeUnits ''Designs'') (codeUnits ''SIGN'') defaultOptions
     \<and> fuzzyMatch unicodeLower (codeUnits ''Designs'') [] defaultOptions
     \<and> fuzzyMatch unicodeLower ([0xA0] @ codeUnits ''CAF'' @ [0xC9, 0xA0])
         (codeUnits ''caf'' @ [0xE9])
         \<lparr>exact = Some True, startsWith = None, minScore = None\<rparr>"
proof
  fix unicodeLower :: "jsstring \<Rightarrow> jsstring"
  let ?n = "\<lambda>x. str_trim (str_toLowerCase unicodeLower x)"
  have ev:
    "?n (codeUnits ''Designs'') \<noteq> ?n (codeUnits '' DESIGN'')"
    "prefix (?n (codeUnits '' DESIGN'')) (?n (codeUnits ''Designs''))"
    "\<not> prefix (?n (codeUnits ''SIGN'')) (?n (codeUnits ''Designs''))"
    "sublist (?n (codeUnits ''SIGN'')) (?n (codeUnits ''Designs''))"
    "?n ([0xA0] @ codeUnits ''CAF'' @ [0xC9, 0xA0]) = ?n (codeUnits ''caf'' @ [0xE9])"
    by code_simp+
  show "\<not> fuzzyMatch unicodeLower (codeUnits ''Designs'') (codeUnits '' DESIGN'')
         \<lparr>exact = Some True, startsWith = Some True, minScore = None\<rparr>
     \<and> fuzzyMatch unicodeLower (codeUnits ''Designs'') (codeUnits '' DESIGN'')
         \<lparr>exact = Some False, startsWith = Some True, minScore = None\<rparr>
     \<and> \<not> fuzzyMatch unicodeLower (codeUnits ''Designs'') (codeUnits ''SIGN'')
         \<lparr>exact = Some False, startsWith = Some True, minScore = None\<rparr>
     \<and> fuzzyMatch unicodeLower (codeUnits ''Designs'') (codeUnits ''SIGN'') defaultOptions
     \<and> fuzzyMatch unicodeLower (codeUnits ''Designs'') [] defaultOptions
     \<and> fuzzyMatch unicodeLower ([0xA0] @ codeUnits ''CAF'' @ [0xC9, 0xA0])
         (codeUnits ''caf'' @ [0xE9])
         \<lparr>exact = Some True, startsWith = None, minScore = None\<rparr>"
    using ev
      fuzzyMatch_three_modes [of "\<lparr>exact = Some True, startsWith = Some True, minScore = None\<rparr>"
        unicodeLower "codeUnits ''Designs''" "codeUnits '' DESIGN''"]
      fuzzyMatch_three_modes [of "\<lparr>exact = Some False, startsWith = Some True, minScore = None\<rparr>"
        unicodeLower "codeUnits ''Designs''" "codeUnits '' DESIGN''"]
      fuzzyMatch_three_modes [of "\<lparr>exact = Some False, startsWith = Some True, minScore = None\<rparr>"
        unicodeLower "codeUnits ''Designs''" "codeUnits ''SIGN''"]
      fuzzyMatch_three_modes [of defaultOptions unicodeLower "codeUnits ''Designs''"
        "codeUnits ''SIGN''"]
      fuzzyMatch_three_modes [of "\<lparr>exact = Some True, startsWith = None, minScore = None\<rparr>"
        unicodeLower "[0xA0] @ codeUnits ''CAF'' @ [0xC9, 0xA0]" "codeUnits ''caf'' @ [0xE9]"]
    by (simp add: defaultOptions_def)
qed

lemma findIndexFrom_none: "findIndexFrom P xs k = - 1 \<longleftrightarrow> (\<forall>x \<in> set xs. \<not> P x)"
  by (induction xs arbitrary: k) auto

lemma findIndexFrom_first:
  "i < length xs \<Longrightarrow> P (xs ! i) \<Longrightarrow> (\<forall>j < i. \<not> P (xs ! j)) \<Longrightarrow>
     findIndexFrom P xs k = int (k + i)"
proof (induction xs arbitrary: i k)
  case Nil
  then show ?case by simp
next
  case (Cons x xs)
  show ?case
  proof (cases i)
    case 0
    with Cons.prems show ?thesis by simp
  next
    case (Suc i')
    with Cons.prems have "\<not> P x" by auto
    moreover have "findIndexFrom P xs (Suc k) = int (Suc k + i')"
      using Cons.prems Suc by (intro Cons.IH) auto
    ultimately show ?thesis using Suc by simp
  qed
qed

lemma fuzzyFindIndex_pred:
  "fuzzyFindIndex u items f t opts = findIndex (qualifies u f t opts) items"
proof -
  have "(\<lambda>item. case item f of Some (JString v) \<Rightarrow> fuzzyMatch u v t opts | _ \<Rightarrow> False)
          = qualifies u f t opts"
    by (auto simp: qualifies_def fun_eq_iff split: option.splits jsvalue.splits)
  then show ?thesis by (simp add: fuzzyFindIndex_def)
qed

lemma fuzzyMatch_minScore:
  "fuzzyMatch u s t (opts\<lparr>minScore := m\<rparr>) = fuzzyMatch u s t opts"
  by (simp add: fuzzyMatch_def)

text \<open>
  Claim C9. \<open>fuzzyFindIndex\<close> answers \<open>-1\<close> exactly when no item qualifies, and
  otherwise the index of the first item, in list order, whose field is a string that
  \<open>fuzzyMatch\<close> accepts. An item whose field holds no string never qualifies (and the
  function has no failing branch for it), and \<open>minScore\<close> has no influence on the answer.
\<close>

theorem fuzzyFindIndex_first_match:
  "(fuzzyFindIndex u items f t opts = - 1 \<longleftrightarrow>
      (\<forall>i < length items. \<not> qualifies u f t opts (items ! i)))
   \<and> (\<forall>i < length items.
        qualifies u f t opts (items ! i) \<and> (\<forall>j < i. \<not> qualifies u f t opts (items ! j)) \<longrightarrow>
        fuzzyFindIndex u items f t opts = int i)
   \<and> (\<forall>it. (\<forall>s. it f \<noteq> Some (JString s)) \<longrightarrow> \<not> qualifies u f t opts it)
   \<and> fuzzyFindIndex u items f t (opts\<lparr>minScore := m\<rparr>) = fuzzyFindIndex u items f t opts"
proof (intro conjI)
  show "fuzzyFindIndex u items f t opts = - 1 \<longleftrightarrow>
      (\<forall>i < length items. \<not> qualifies u f t opts (items ! i))"
    by (simp add: fuzzyFindIndex_pred findIndex_def findIndexFrom_none all_set_conv_all_nth)
  show "\<forall>i < length items.
        qualifies u f t opts (items ! i) \<and> (\<forall>j < i. \<not> qualifies u f t opts (items ! j)) \<longrightarrow>
        fuzzyFindIndex u items f t opts = int i"
    using findIndexFrom_first [of _ items "qualifies u f t opts" 0]
    by (simp add: fuzzyFindIndex_pred findIndex_def)
  show "\<forall>it. (\<forall>s. it f \<noteq> Some (JString s)) \<longrightarrow> \<not> qualifies u f t opts it"
    by (simp add: qualifies_def)
  have "qualifies u f t (opts\<lparr>minScore := m\<rparr>) = qualifies u f t opts"
    by (simp add: qualifies_def fun_eq_iff fuzzyMatch_minScore)
  then show "fuzzyFindIndex u items f t (opts\<lparr>minScore := m\<rparr>) = fuzzyFindIndex u items f t opts"
    by (simp add: fuzzyFindIndex_pred)
qed

text \<open>
  Among the meals, the search for \<open>pran\<close> in the field \<open>name\<close> passes over a number, a
  name that does not match and an item without the field, and stops at index 3, before
  the second match at index 4.
\<close>

theorem fuzzyFindIndex_first_match_witness:
  "\<forall>u. 3 < length meals
   \<and> qualifies u ''name'' (codeUnits ''pran'') defaultOptions (meals ! 3)
   \<and> \<not> qualifies u ''name'' (codeUnits ''pran'') defaultOptions (meals ! 0)
   \<and> \<not> qualifies u ''name'' (codeUnits ''pran'') defaultOptions (meals ! 1)
   \<and> \<not> qualifies u ''name'' (codeUnits ''pran'') defaultOptions (meals ! 2)
   \<and> qualifies u ''name'' (codeUnits ''pran'') defaultOptions (meals ! 4)
   \<and> fuzzyFindIndex u meals ''name'' (codeUnits ''pran'') defaultOptions = 3
   \<and> fuzzyFindIndex u meals ''name'' (codeUnits ''cena'') defaultOptions = - 1"
proof
  fix u :: "jsstring \<Rightarrow> jsstring"
  have m: "fuzzyMatch u (codeUnits '' PRANZO'') (codeUnits ''pran'') defaultOptions"
    "fuzzyMatch u (codeUnits ''Pranzo'') (codeUnits ''pran'') defaultOptions"
    "\<not> fuzzyMatch u (codeUnits ''Colazione'') (codeUnits ''pran'') defaultOptions"
    "\<not> fuzzyMatch u (codeUnits ''Colazione'') (codeUnits ''cena'') defaultOptions"
    "\<not> fuzzyMatch u (codeUnits '' PRANZO'') (codeUnits ''cena'') defaultOptions"
    "\<not> fuzzyMatch u (codeUnits ''Pranzo'') (codeUnits ''cena'') defaultOptions"
    by code_simp+
  have q: "qualifies u ''name'' (codeUnits ''pran'') defaultOptions (meals ! 3)"
    "qualifies u ''name'' (codeUnits ''pran'') defaultOptions (meals ! 4)"
    "\<forall>j < 3. \<not> qualifies u ''name'' (codeUnits ''pran'') defaultOptions (meals ! j)"
    "\<forall>j < length meals. \<not> qualifies u ''name'' (codeUnits ''cena'') defaultOptions (meals ! j)"
    using m by (simp_all add: qualifies_def meals_def All_less_Suc numeral_3_eq_3)
  have len: "3 < length meals" by (simp add: meals_def)
  have "fuzzyFindIndex u meals ''name'' (codeUnits ''pran'') defaultOptions = int 3"
    using len q(1,3)
      fuzzyFindIndex_first_match [of u meals "''name''" "codeUnits ''pran''" defaultOptions None]
    by blast
  moreover have "fuzzyFindIndex u meals ''name'' (codeUnits ''cena'') defaultOptions = - 1"
    using q(4)
      fuzzyFindIndex_first_match [of u meals "''name''" "codeUnits ''cena''" defaultOptions None]
    by blast
  moreover have "\<not> qualifies u ''name'' (codeUnits ''pran'') defaultOptions (meals ! 0)"
    "\<not> qualifies u ''name'' (codeUnits ''pran'') defaultOptions (meals ! 1)"
    "\<not> qualifies u ''name'' (codeUnits ''pran'') defaultOptions (meals ! 2)"
    using q(3) by simp_all
  ultimately show "3 < length meals
   \<and> qualifies u ''name'' (codeUnits ''pran'') defaultOptions (meals ! 3)
   \<and> \<not> qualifies u ''name'' (codeUnits ''pran'') defaultOptions (meals ! 0)
   \<and> \<not> qualifies u ''name'' (codeUnits ''pran'') defaultOptions (meals ! 1)
   \<and> \<not> qualifies u ''name'' (codeUnits ''pran'') defaultOptions (meals ! 2)
   \<and> qualifies u ''name'' (codeUnits ''pran'') defaultOptions (meals ! 4)
   \<and> fuzzyFindIndex u meals ''name'' (codeUnits ''pran'') defaultOptions = 3
   \<and> fuzzyFindIndex u meals ''name'' (codeUnits ''cena'') defaultOptions = - 1"
    using len q(1,2) by simp
qed

section \<open>Properties of the agentic tool\<close>

subsection \<open>The loop over the modifications\<close>

lemma marks_distinct:
  "str_startsWith (check_mark @ s) check_mark" "\<not> str_startsWith (check_mark @ s) cross_mark"
  "str_startsWith (cross_mark @ s) cross_mark" "\<not> str_startsWith (cross_mark @ s) check_mark"
  by (simp_all add: str_startsWith_def check_mark_def cross_mark_def)

lemma validateItem_line: "validateItem h m = Inl line \<Longrightarrow> \<exists>s. line = cross_mark @ s"
  by (auto simp: validateItem_def split: sum.splits option.splits if_splits)

lemma processItem_unknown:
  "acts (action m) = None \<Longrightarrow>
     processItem acts m st = st\<lparr>results := results st @ [cross_mark @ '' Unknown action: '' @ action m]\<rparr>"
  by (simp add: processItem_def)

lemma processItem_invalid:
  "acts (action m) = Some h \<Longrightarrow> validateItem h m = Inl line \<Longrightarrow>
     processItem acts m st = st\<lparr>results := results st @ [line]\<rparr>"
  by (simp add: processItem_def)

lemma processItem_threw:
  "acts (action m) = Some h \<Longrightarrow> validateItem h m = Inr p \<Longrightarrow>
   execute h (currentEntity st) p (world st) = ((e', Inl err), w') \<Longrightarrow>
     processItem acts m st =
       \<lparr>currentEntity = e',
        results = results st @ [cross_mark @ '' '' @ action m @ '' failed: '' @ thrown_message err],
        world = w', calls = calls st @ [Call_execute (action m) (currentEntity st)]\<rparr>"
  by (simp add: processItem_def)

lemma processItem_completed:
  "acts (action m) = Some h \<Longrightarrow> validateItem h m = Inr p \<Longrightarrow>
   execute h (currentEntity st) p (world st) = ((e', Inr r), w') \<Longrightarrow>
     processItem acts m st =
       \<lparr>currentEntity = (case r of None \<Rightarrow> e' | Some e \<Rightarrow> e),
        results = results st @ [check_mark @ '' '' @ action m @ '' completed''],
        world = w', calls = calls st @ [Call_execute (action m) (currentEntity st)]\<rparr>"
  by (simp add: processItem_def)

lemma processItem_appends:
  "\<exists>s. results (processItem acts m st) = results st @ [check_mark @ s] \<or>
       results (processItem acts m st) = results st @ [cross_mark @ s]"
proof (cases "acts (action m)")
  case None
  then show ?thesis by (auto simp: processItem_unknown)
next
  case (Some h)
  show ?thesis
  proof (cases "validateItem h m")
    case (Inl line)
    with Some validateItem_line [OF Inl] show ?thesis by (auto simp: processItem_invalid)
  next
    case (Inr p)
    obtain e' c w' where ex: "execute h (currentEntity st) p (world st) = ((e', c), w')"
      by (metis surj_pair)
    show ?thesis
    proof (cases c)
      case (Inl err)
      with Some Inr ex show ?thesis by (auto simp: processItem_threw)
    next
      case r: (Inr r)
      with Some Inr ex show ?thesis by (auto simp: processItem_completed)
    qed
  qed
qed

lemma processItem_one_line:
  "results (processItem acts m st) = results st @ [last (results (processItem acts m st))]"
  using processItem_appends [of acts m st] by auto

lemma applyModifications_append:
  "applyModifications acts (xs @ ys) st = applyModifications acts ys (applyModifications acts xs st)"
  by (induction xs arbitrary: st) simp_all

lemma applyModifications_snoc:
  "applyModifications acts (xs @ [m]) st = processItem acts m (applyModifications acts xs st)"
  by (simp add: applyModifications_append)

lemma applyModifications_results:
  "results (applyModifications acts ms st) =
     results st @ map (\<lambda>i. last (results (processItem acts (ms ! i)
                          (applyModifications acts (take i ms) st)))) [0..<length ms]"
proof (induction ms rule: rev_induct)
  case Nil
  then show ?case by simp
next
  case (snoc m ms)
  have "results (applyModifications acts (ms @ [m]) st) =
          results (applyModifications acts ms st) @
            [last (results (processItem acts m (applyModifications acts ms st)))]"
    unfolding applyModifications_snoc by (rule processItem_one_line)
  with snoc show ?case by (simp add: nth_append)
qed

lemma applyModifications_length:
  "length (results (applyModifications acts ms st)) = length (results st) + length ms"
  by (simp add: applyModifications_results)

lemma counts_one:
  "successCount (rs @ [check_mark @ s]) = Suc (successCount rs)"
  "errorCount (rs @ [check_mark @ s]) = errorCount rs"
  "successCount (rs @ [cross_mark @ s]) = successCount rs"
  "errorCount (rs @ [cross_mark @ s]) = Suc (errorCount rs)"
  by (simp_all add: successCount_def errorCount_def marks_distinct)

lemma processItem_counts:
  "successCount (results (processItem acts m st)) + errorCount (results (processItem acts m st))
     = Suc (successCount (results st) + errorCount (results st))"
  using processItem_appends [of acts m st] by (auto simp: counts_one)

lemma applyModifications_counts:
  "successCount (results (applyModifications acts ms st)) +
   errorCount (results (applyModifications acts ms st))
     = successCount (results st) + errorCount (results st) + length ms"
  by (induction ms arbitrary: st) (simp_all add: processItem_counts)

lemma processItem_calls:
  "calls (processItem acts m st) = calls st \<or>
   calls (processItem acts m st) = calls st @ [Call_execute (action m) (currentEntity st)]"
  by (auto simp: processItem_def split: option.splits sum.splits prod.splits)

lemma applyModifications_calls:
  "\<exists>cs. calls (applyModifications acts ms st) = calls st @ cs \<and> (\<forall>c \<in> set cs. isExecuteCall c)"
proof (induction ms arbitrary: st)
  case Nil
  then show ?case by simp
next
  case (Cons m ms)
  obtain cs where cs: "calls (applyModifications acts ms (processItem acts m st)) =
      calls (processItem acts m st) @ cs" "\<forall>c \<in> set cs. isExecuteCall c"
    using Cons.IH by blast
  from processItem_calls [of acts m st] show ?case
  proof
    assume "calls (processItem acts m st) = calls st"
    with cs show ?thesis by auto
  next
    assume "calls (processItem acts m st) = calls st @ [Call_execute (action m) (currentEntity st)]"
    with cs have "calls (applyModifications acts (m # ms) st) =
        calls st @ (Call_execute (action m) (currentEntity st) # cs)
        \<and> (\<forall>c \<in> set (Call_execute (action m) (currentEntity st) # cs). isExecuteCall c)"
      by simp
    then show ?thesis by blast
  qed
qed

subsection \<open>The run as a whole\<close>

lemma resolveAndValidate_ended:
  "resolveAndValidate cfg eid w0 = Inl (Inr r, w', cs) \<Longrightarrow> \<not> success r"
  by (auto simp: resolveAndValidate_def errorResult_def
      split: prod.splits sum.splits option.splits if_splits)

lemma persistAndReport_success:
  assumes "persistAndReport cfg eid st = (Inr r, w', cs)" "success r"
  shows "r = successResult (str_join [CHR 0x0A] (results st))
               (Some \<lparr>summaryEntityId = eid,
                      modificationsApplied = successCount (results st),
                      errors = errorCount (results st)\<rparr>) None"
  using assms
  by (auto simp: persistAndReport_def errorResult_def
      split: prod.splits sum.splits)

lemma loopEntry_results: "loopEntry cfg args w0 = Some st0 \<Longrightarrow> results st0 = []"
  by (auto simp: loopEntry_def split: sum.splits if_splits)

lemma agentic_execute_reached:
  "loopEntry cfg args w0 = Some st0 \<Longrightarrow>
     agentic_execute cfg args w0 =
       persistAndReport cfg (entityId args)
         (applyModifications (actions cfg) (buildModifications args) st0)"
  by (auto simp: loopEntry_def agentic_execute_def split: sum.splits if_splits)

lemma afterLoop_Some:
  "afterLoop cfg args w0 = Some st \<longleftrightarrow>
     (\<exists>st0. loopEntry cfg args w0 = Some st0 \<and>
        st = applyModifications (actions cfg) (buildModifications args) st0)"
  by (auto simp: afterLoop_def)

lemma agentic_execute_afterLoop:
  "afterLoop cfg args w0 = Some st \<Longrightarrow>
     agentic_execute cfg args w0 = persistAndReport cfg (entityId args) st"
  by (auto simp: afterLoop_Some agentic_execute_reached)

lemma agentic_execute_not_reached:
  "loopEntry cfg args w0 = None \<Longrightarrow> agentic_execute cfg args w0 = (Inr r, w', cs) \<Longrightarrow>
     \<not> success r"
  by (auto simp: loopEntry_def agentic_execute_def errorResult_def Let_def
      split: sum.splits if_splits dest: resolveAndValidate_ended)

lemma agentic_execute_success:
  assumes "agentic_execute cfg args w0 = (Inr r, w', cs)" "success r"
  shows "\<exists>st. afterLoop cfg args w0 = Some st \<and>
           r = successResult (str_join [CHR 0x0A] (results st))
                 (Some \<lparr>summaryEntityId = entityId args,
                        modificationsApplied = successCount (results st),
                        errors = errorCount (results st)\<rparr>) None"
proof (cases "loopEntry cfg args w0")
  case None
  with assms agentic_execute_not_reached [of cfg args w0 r w' cs] show ?thesis by simp
next
  case (Some st0)
  define st where "st = applyModifications (actions cfg) (buildModifications args) st0"
  have al: "afterLoop cfg args w0 = Some st"
    using Some by (simp add: afterLoop_def st_def)
  then have "persistAndReport cfg (entityId args) st = (Inr r, w', cs)"
    using assms(1) by (simp add: agentic_execute_afterLoop)
  from persistAndReport_success [OF this assms(2)] al show ?thesis by simp
qed

lemma persist_beforeSave_threw:
  "applyBeforeSave cfg st = (Inl err, w1, cs1) \<Longrightarrow> persistAndReport cfg eid st = (Inl err, w1, cs1)"
  by (simp add: persistAndReport_def)

lemma persist_save_threw:
  "applyBeforeSave cfg st = (Inr e, w1, cs1) \<Longrightarrow> saveEntity cfg eid e w1 = (Inl err, w2) \<Longrightarrow>
     persistAndReport cfg eid st =
       (Inr (errorResult (''Save failed: '' @ thrown_message err)), w2,
        cs1 @ [Call_saveEntity eid e])"
  by (simp add: persistAndReport_def)

lemma persist_afterSave_threw:
  "applyBeforeSave cfg st = (Inr e, w1, cs1) \<Longrightarrow> saveEntity cfg eid e w1 = (Inr u, w2) \<Longrightarrow>
   applyAfterSave cfg e w2 (cs1 @ [Call_saveEntity eid e]) = (Inl err, w3, cs3) \<Longrightarrow>
     persistAndReport cfg eid st = (Inl err, w3, cs3)"
  by (simp add: persistAndReport_def)

lemma persist_saved:
  "applyBeforeSave cfg st = (Inr e, w1, cs1) \<Longrightarrow> saveEntity cfg eid e w1 = (Inr u, w2) \<Longrightarrow>
   applyAfterSave cfg e w2 (cs1 @ [Call_saveEntity eid e]) = (Inr u', w3, cs3) \<Longrightarrow>
     persistAndReport cfg eid st =
       (Inr (successResult (str_join [CHR 0x0A] (results st))
               (Some \<lparr>summaryEntityId = eid,
                      modificationsApplied = successCount (results st),
                      errors = errorCount (results st)\<rparr>) None), w3, cs3)"
  by (simp add: persistAndReport_def)

lemma applyAfterSave_calls:
  "applyAfterSave cfg e w cs = (r, w', cs') \<Longrightarrow>
     cs' = cs \<or> cs' = cs @ [Call_afterSave e]"
  by (auto simp: applyAfterSave_def split: option.splits prod.splits)

lemma applyBeforeSave_calls:
  "applyBeforeSave cfg st = (r, w', cs') \<Longrightarrow>
     cs' = calls st \<or> cs' = calls st @ [Call_beforeSave (currentEntity st)]"
  by (auto simp: applyBeforeSave_def split: option.splits prod.splits)

lemma resolveAndValidate_calls:
  "resolveAndValidate cfg eid w0 = Inr (entity, w1, cs1) \<Longrightarrow> \<forall>c \<in> set cs1. isFetchCall c"
  by (auto simp: resolveAndValidate_def split: prod.splits sum.splits option.splits if_splits)

lemma loopEntry_calls:
  "loopEntry cfg args w0 = Some st0 \<Longrightarrow> \<forall>c \<in> set (calls st0). isFetchCall c"
  by (auto simp: loopEntry_def split: sum.splits if_splits dest!: resolveAndValidate_calls)

lemma afterLoop_no_save:
  assumes "afterLoop cfg args w0 = Some st"
  shows "filter isSaveCall (calls st) = []"
proof -
  obtain st0 where st0: "loopEntry cfg args w0 = Some st0"
    and st: "st = applyModifications (actions cfg) (buildModifications args) st0"
    using assms by (auto simp: afterLoop_Some)
  obtain cs where cs: "calls st = calls st0 @ cs" "\<forall>c \<in> set cs. isExecuteCall c"
    using applyModifications_calls [of "actions cfg" "buildModifications args" st0] st by blast
  have "\<not> isSaveCall c" if "c \<in> set (calls st0) \<union> set cs" for c
  proof -
    from that have "isFetchCall c \<or> isExecuteCall c"
      using loopEntry_calls [OF st0] cs(2) by auto
    then show ?thesis by (cases c) auto
  qed
  then show ?thesis using cs(1) by (simp add: filter_empty_conv)
qed

lemma validateItem_target:
  "targetSchema h (target m) = Inl err \<Longrightarrow>
     validateItem h m = Inl (cross_mark @ '' Invalid target for '' @ action m @ '': '' @ err)"
  by (simp add: validateItem_def)

lemma validateItem_changes:
  "targetSchema h (target m) = Inr td \<Longrightarrow> changesSchema h = Some sch \<Longrightarrow>
   changes m \<noteq> None \<Longrightarrow> sch (changes m) = Inl err \<Longrightarrow>
     validateItem h m = Inl (cross_mark @ '' Invalid changes for '' @ action m @ '': '' @ err)"
  by (simp add: validateItem_def)

lemma agentic_execute_counts:
  assumes "agentic_execute cfg args w0 = (Inr r, w', cs)" "success r"
  shows "\<exists>s. updated r = Some s \<and>
           modificationsApplied s + errors s = length (buildModifications args)"
proof -
  obtain st where st: "afterLoop cfg args w0 = Some st"
    and r: "r = successResult (str_join [CHR 0x0A] (results st))
                 (Some \<lparr>summaryEntityId = entityId args,
                        modificationsApplied = successCount (results st),
                        errors = errorCount (results st)\<rparr>) None"
    using agentic_execute_success [OF assms] by blast
  obtain st0 where st0: "loopEntry cfg args w0 = Some st0"
    "st = applyModifications (actions cfg) (buildModifications args) st0"
    using st by (auto simp: afterLoop_Some)
  have "successCount (results st) + errorCount (results st) = length (buildModifications args)"
    using applyModifications_counts [of "actions cfg" "buildModifications args" st0]
      loopEntry_results [OF st0(1)] st0(2)
    by (simp add: successCount_def errorCount_def)
  then show ?thesis by (simp add: r successResult_def)
qed

text \<open>
  Claim C1. The loop appends exactly one outcome line per modification item, in the
  order of the items: after \<open>N\<close> items the list has grown by \<open>N\<close> lines, and line \<open>i\<close> is
  the one that item \<open>i\<close> produced in the state its predecessors left. An unknown
  action, a target or changes that fail their schema, a handler that throws and a
  handler that returns each append their one line, so no item is dropped; and the two
  counts of a successful aggregate result add up to the number of items.
\<close>

theorem one_outcome_per_item:
  "length (results (applyModifications acts ms st)) = length (results st) + length ms
   \<and> results (applyModifications acts ms st) =
       results st @ map (\<lambda>i. last (results (processItem acts (ms ! i)
                            (applyModifications acts (take i ms) st)))) [0..<length ms]
   \<and> (\<forall>m s. acts (action m) = None \<longrightarrow>
         results (processItem acts m s) =
           results s @ [cross_mark @ '' Unknown action: '' @ action m])
   \<and> (\<forall>m s h err. acts (action m) = Some h \<and> targetSchema h (target m) = Inl err \<longrightarrow>
         results (processItem acts m s) =
           results s @ [cross_mark @ '' Invalid target for '' @ action m @ '': '' @ err])
   \<and> (\<forall>m s h td sch err.
         acts (action m) = Some h \<and> targetSchema h (target m) = Inr td \<and>
         changesSchema h = Some sch \<and> changes m \<noteq> None \<and> sch (changes m) = Inl err \<longrightarrow>
         results (processItem acts m s) =
           results s @ [cross_mark @ '' Invalid changes for '' @ action m @ '': '' @ err])
   \<and> (\<forall>m s h p e' err w'.
         acts (action m) = Some h \<and> validateItem h m = Inr p \<and>
         execute h (currentEntity s) p (world s) = ((e', Inl err), w') \<longrightarrow>
         results (processItem acts m s) =
           results s @ [cross_mark @ '' '' @ action m @ '' failed: '' @ thrown_message err])
   \<and> (\<forall>m s h p e' r w'.
         acts (action m) = Some h \<and> validateItem h m = Inr p \<and>
         execute h (currentEntity s) p (world s) = ((e', Inr r), w') \<longrightarrow>
         results (processItem acts m s) =
           results s @ [check_mark @ '' '' @ action m @ '' completed''])
   \<and> (\<forall>cfg args w0 r w' cs.
         actions cfg = acts \<and> agentic_execute cfg args w0 = (Inr r, w', cs) \<and> success r \<longrightarrow>
         (\<exists>s. updated r = Some s \<and>
            modificationsApplied s + errors s = length (buildModifications args)))"
proof (intro conjI allI impI)
  show "length (results (applyModifications acts ms st)) = length (results st) + length ms"
    by (rule applyModifications_length)
  show "results (applyModifications acts ms st) =
       results st @ map (\<lambda>i. last (results (processItem acts (ms ! i)
                            (applyModifications acts (take i ms) st)))) [0..<length ms]"
    by (rule applyModifications_results)
  show "results (processItem acts m s) = results s @ [cross_mark @ '' Unknown action: '' @ action m]"
    if "acts (action m) = None" for m s
    using that by (simp add: processItem_unknown)
  show "results (processItem acts m s) =
           results s @ [cross_mark @ '' Invalid target for '' @ action m @ '': '' @ err]"
    if "acts (action m) = Some h \<and> targetSchema h (target m) = Inl err" for m s h err
    using that by (simp add: processItem_invalid [OF _ validateItem_target])
  show "results (processItem acts m s) =
           results s @ [cross_mark @ '' Invalid changes for '' @ action m @ '': '' @ err]"
    if "acts (action m) = Some h \<and> targetSchema h (target m) = Inr td \<and>
         changesSchema h = Some sch \<and> changes m \<noteq> None \<and> sch (changes m) = Inl err"
    for m s h td sch err
    using that by (simp add: processItem_invalid [OF _ validateItem_changes])
  show "results (processItem acts m s) =
           results s @ [cross_mark @ '' '' @ action m @ '' failed: '' @ thrown_message err]"
    if "acts (action m) = Some h \<and> validateItem h m = Inr p \<and>
         execute h (currentEntity s) p (world s) = ((e', Inl err), w')" for m s h p e' err w'
    using that by (simp add: processItem_threw)
  show "results (processItem acts m s) =
           results s @ [check_mark @ '' '' @ action m @ '' completed'']"
    if "acts (action m) = Some h \<and> validateItem h m = Inr p \<and>
         execute h (currentEntity s) p (world s) = ((e', Inr r), w')" for m s h p e' r w'
    using that by (simp add: processItem_completed)
  show "\<exists>s. updated r = Some s \<and>
            modificationsApplied s + errors s = length (buildModifications args)"
    if "actions cfg = acts \<and> agentic_execute cfg args w0 = (Inr r, w', cs) \<and> success r"
    for cfg args w0 r w' cs
    using that agentic_execute_counts [of cfg args w0 r w' cs] by simp
qed

text \<open>
  Five items, one for each way to end, give five lines in the order of the items, and
  the aggregate result counts one success and four failures.
\<close>

theorem one_outcome_per_item_witness:
  "length fiveFates = 5
   \<and> results (applyModifications (actions demoConfig) fiveFates demoState) =
       [cross_mark @ '' Unknown action: rename'',
        cross_mark @ '' Invalid target for set_weight: Required'',
        cross_mark @ '' Invalid changes for set_weight: Too big'',
        cross_mark @ '' set_weight failed: bad weight'',
        check_mark @ '' set_weight completed'']
   \<and> length (results (applyModifications (actions demoConfig) fiveFates demoState)) = 5
   \<and> fst (agentic_execute demoConfig (batchArgs ''p1'' fiveFates) demoStore) =
       Inr (successResult
              (str_join [CHR 0x0A]
                 [cross_mark @ '' Unknown action: rename'',
                  cross_mark @ '' Invalid target for set_weight: Required'',
                  cross_mark @ '' Invalid changes for set_weight: Too big'',
                  cross_mark @ '' set_weight failed: bad weight'',
                  check_mark @ '' set_weight completed''])
              (Some \<lparr>summaryEntityId = ''p1'', modificationsApplied = 1, errors = 4\<rparr>) None)
   \<and> actions demoConfig (action (fiveFates ! 0)) = None
   \<and> results (processItem (actions demoConfig) (fiveFates ! 0) demoState) =
       [cross_mark @ '' Unknown action: rename'']"
proof -
  have ev: "length fiveFates = 5" "results demoState = []"
    "actions demoConfig (action (fiveFates ! 0)) = None"
    "action (fiveFates ! 0) = ''rename''"
    "results (applyModifications (actions demoConfig) fiveFates demoState) =
       [cross_mark @ '' Unknown action: rename'',
        cross_mark @ '' Invalid target for set_weight: Required'',
        cross_mark @ '' Invalid changes for set_weight: Too big'',
        cross_mark @ '' set_weight failed: bad weight'',
        check_mark @ '' set_weight completed'']"
    "fst (agentic_execute demoConfig (batchArgs ''p1'' fiveFates) demoStore) =
       Inr (successResult
              (str_join [CHR 0x0A]
                 [cross_mark @ '' Unknown action: rename'',
                  cross_mark @ '' Invalid target for set_weight: Required'',
                  cross_mark @ '' Invalid changes for set_weight: Too big'',
                  cross_mark @ '' set_weight failed: bad weight'',
                  check_mark @ '' set_weight completed''])
              (Some \<lparr>summaryEntityId = ''p1'', modificationsApplied = 1, errors = 4\<rparr>) None)"
    by code_simp+
  show ?thesis
    using ev one_outcome_per_item [of "actions demoConfig" fiveFates demoState]
    by simp
qed

subsection \<open>Helping facts about items, hooks and the persistence steps\<close>

lemma errorResult_fields:
  "success (errorResult x) = False" "error (errorResult x) = Some x"
  "message (errorResult x) = ''Modification failed''" "updated (errorResult x) = None"
  by (simp_all add: errorResult_def)

lemma returns_simps:
  "returns (Inr v, w) = True" "returns (Inl err, w) = False"
  by (simp_all add: returns_def)

lemma persistAndReport_cases:
  assumes "applyBeforeSave cfg st = (Inr e, w1, cs1)"
  obtains
    (save_threw) err w2 where "saveEntity cfg eid e w1 = (Inl err, w2)"
      "persistAndReport cfg eid st =
         (Inr (errorResult (''Save failed: '' @ thrown_message err)), w2,
          cs1 @ [Call_saveEntity eid e])"
  | (hook_threw) u w2 err w3 cs3 where "saveEntity cfg eid e w1 = (Inr u, w2)"
      "applyAfterSave cfg e w2 (cs1 @ [Call_saveEntity eid e]) = (Inl err, w3, cs3)"
      "persistAndReport cfg eid st = (Inl err, w3, cs3)"
  | (saved) u w2 u' w3 cs3 where "saveEntity cfg eid e w1 = (Inr u, w2)"
      "applyAfterSave cfg e w2 (cs1 @ [Call_saveEntity eid e]) = (Inr u', w3, cs3)"
      "persistAndReport cfg eid st =
         (Inr (successResult (str_join [CHR 0x0A] (results st))
                 (Some \<lparr>summaryEntityId = eid,
                        modificationsApplied = successCount (results st),
                        errors = errorCount (results st)\<rparr>) None), w3, cs3)"
proof -
  obtain r w2 where sv: "saveEntity cfg eid e w1 = (r, w2)" by (metis surj_pair)
  show thesis
  proof (cases r)
    case (Inl err)
    with sv show thesis using save_threw persist_save_threw [OF assms] by blast
  next
    case (Inr u)
    obtain r' w3 cs3 where ah:
      "applyAfterSave cfg e w2 (cs1 @ [Call_saveEntity eid e]) = (r', w3, cs3)"
      by (metis surj_pair)
    show thesis
    proof (cases r')
      case (Inl err)
      with sv Inr ah show thesis using hook_threw persist_afterSave_threw [OF assms] by blast
    next
      case r: (Inr u')
      with sv Inr ah show thesis using saved persist_saved [OF assms] by blast
    qed
  qed
qed

lemma buildModifications_empty:
  "buildModifications args = [] \<longleftrightarrow>
     (batch args = None \<or> batch args = Some []) \<and>
     (arg_action args = None \<or> arg_action args = Some [])"
  by (auto simp: buildModifications_def Let_def split: option.splits)

lemma returns_iff: "returns c \<longleftrightarrow> (\<exists>v w. c = (Inr v, w))"
  by (cases c) (auto simp: returns_def split: sum.splits)



lemma loopEntry_counts:
  "loopEntry cfg args w0 = Some st0 \<Longrightarrow> successCount (results st0) = 0 \<and> errorCount (results st0) = 0"
  by (simp add: loopEntry_results successCount_def errorCount_def)

lemma savesCleanly_result:
  assumes "savesCleanly cfg eid st"
  shows "fst (persistAndReport cfg eid st) =
           Inr (successResult (str_join [CHR 0x0A] (results st))
                  (Some \<lparr>summaryEntityId = eid,
                         modificationsApplied = successCount (results st),
                         errors = errorCount (results st)\<rparr>) None)"
proof -
  obtain e w1 cs1 where bs: "applyBeforeSave cfg st = (Inr e, w1, cs1)"
    using assms by (auto simp: savesCleanly_def split: prod.splits sum.splits)
  from bs show ?thesis
  proof (cases rule: persistAndReport_cases [where eid = eid])
    case (save_threw err w2)
    with assms bs show ?thesis by (simp add: savesCleanly_def)
  next
    case (hook_threw u w2 err w3 cs3)
    with assms bs show ?thesis by (simp add: savesCleanly_def returns_def)
  next
    case (saved u w2 u' w3 cs3)
    then show ?thesis by simp
  qed
qed

lemma persistAndReport_calls:
  assumes "applyBeforeSave cfg st = (Inr e, w1, cs1)"
  shows "\<exists>pre post. snd (snd (persistAndReport cfg eid st)) =
            calls st @ pre @ [Call_saveEntity eid e] @ post
          \<and> (pre = [] \<or> pre = [Call_beforeSave (currentEntity st)])
          \<and> (post = [] \<or> post = [Call_afterSave e])"
proof -
  have pre: "cs1 = calls st @ [] \<or> cs1 = calls st @ [Call_beforeSave (currentEntity st)]"
    using applyBeforeSave_calls [OF assms] by simp
  have post: "\<exists>post. snd (snd (persistAndReport cfg eid st)) = cs1 @ [Call_saveEntity eid e] @ post
      \<and> (post = [] \<or> post = [Call_afterSave e])"
    using assms
  proof (cases rule: persistAndReport_cases [where eid = eid])
    case (save_threw err w2)
    then show ?thesis by simp
  next
    case (hook_threw u w2 err w3 cs3)
    then show ?thesis using applyAfterSave_calls [OF hook_threw(2)] by auto
  next
    case (saved u w2 u' w3 cs3)
    then show ?thesis using applyAfterSave_calls [OF saved(2)] by auto
  qed
  from pre post show ?thesis by (metis append_assoc)
qed

lemma resolveAndValidate_returns:
  assumes "\<forall>eid w. returns (resolveEntity cfg eid w)"
    and "\<forall>v e w. validateEntity cfg = Some v \<longrightarrow> returns (v e w)"
  shows "(\<exists>r w cs. resolveAndValidate cfg eid w0 = Inl (Inr r, w, cs)) \<or>
         (\<exists>entity w cs. resolveAndValidate cfg eid w0 = Inr (entity, w, cs))"
proof -
  from assms(1) have "returns (resolveEntity cfg eid w0)" by blast
  then obtain oe w1 where res: "resolveEntity cfg eid w0 = (Inr oe, w1)"
    by (auto simp: returns_iff)
  show ?thesis
  proof (cases oe)
    case None
    with res show ?thesis by (simp add: resolveAndValidate_def)
  next
    case (Some entity)
    show ?thesis
    proof (cases "validateEntity cfg")
      case None
      with res Some show ?thesis by (simp add: resolveAndValidate_def)
    next
      case v: (Some v)
      with assms(2) have "returns (v entity w1)" by blast
      then obtain res' w2 where "v entity w1 = (Inr res', w2)"
        by (auto simp: returns_iff)
      with res Some v show ?thesis by (simp add: resolveAndValidate_def)
    qed
  qed
qed

lemma persistAndReport_returns:
  assumes "\<forall>h e w. beforeSave cfg = Some h \<longrightarrow> returns (h e w)"
    and "\<forall>h e w. afterSave cfg = Some h \<longrightarrow> returns (h e w)"
  shows "\<exists>r. fst (persistAndReport cfg eid st) = Inr r"
proof -
  obtain e w1 cs1 where bs: "applyBeforeSave cfg st = (Inr e, w1, cs1)"
  proof (cases "beforeSave cfg")
    case None
    then show ?thesis using that by (simp add: applyBeforeSave_def)
  next
    case (Some h)
    with assms(1) have "returns (h (currentEntity st) (world st))" by blast
    then obtain e w1 where "h (currentEntity st) (world st) = (Inr e, w1)"
      by (auto simp: returns_iff)
    with Some show ?thesis using that by (simp add: applyBeforeSave_def)
  qed
  have after: "\<exists>u w' cs'. applyAfterSave cfg e w cs = (Inr u, w', cs')" for w cs
  proof (cases "afterSave cfg")
    case None
    then show ?thesis by (simp add: applyAfterSave_def)
  next
    case (Some h)
    with assms(2) have "returns (h e w)" by blast
    then obtain u w' where "h e w = (Inr u, w')"
      by (auto simp: returns_iff)
    with Some show ?thesis by (simp add: applyAfterSave_def)
  qed
  from bs show ?thesis
  proof (cases rule: persistAndReport_cases [where eid = eid])
    case (save_threw err w2)
    then show ?thesis by simp
  next
    case (hook_threw u w2 err w3 cs3)
    with after [of w2 "cs1 @ [Call_saveEntity eid e]"] show ?thesis by simp
  next
    case (saved u w2 u' w3 cs3)
    then show ?thesis by simp
  qed
qed

lemma agentic_execute_returns:
  assumes "\<forall>eid w. returns (resolveEntity cfg eid w)"
    and "\<forall>v e w. validateEntity cfg = Some v \<longrightarrow> returns (v e w)"
    and "\<forall>h e w. beforeSave cfg = Some h \<longrightarrow> returns (h e w)"
    and "\<forall>h e w. afterSave cfg = Some h \<longrightarrow> returns (h e w)"
  shows "\<exists>r. fst (agentic_execute cfg args w0) = Inr r"
  using resolveAndValidate_returns [OF assms(1,2), of "entityId args" w0]
proof (elim disjE exE)
  fix r w cs assume "resolveAndValidate cfg (entityId args) w0 = Inl (Inr r, w, cs)"
  then show ?thesis by (simp add: agentic_execute_def)
next
  fix entity w cs assume rv: "resolveAndValidate cfg (entityId args) w0 = Inr (entity, w, cs)"
  show ?thesis
  proof (cases "buildModifications args = []")
    case True
    with rv show ?thesis by (simp add: agentic_execute_def)
  next
    case False
    with rv show ?thesis
      using persistAndReport_returns [OF assms(3,4)]
      by (simp add: agentic_execute_def)
  qed
qed

lemma resolveAndValidate_threw:
  "resolveAndValidate cfg eid w0 = Inl (Inl err, w, cs) \<longleftrightarrow>
     (\<exists>w1. resolveEntity cfg eid w0 = (Inl err, w1) \<and> w = w1 \<and> cs = [Call_resolveEntity eid]) \<or>
     (\<exists>entity w1 v. resolveEntity cfg eid w0 = (Inr (Some entity), w1) \<and>
         validateEntity cfg = Some v \<and> v entity w1 = (Inl err, w) \<and>
         cs = [Call_resolveEntity eid, Call_validateEntity entity])"
  by (auto simp: resolveAndValidate_def split: prod.splits sum.splits option.splits if_splits)

lemma applyBeforeSave_threw:
  "applyBeforeSave cfg st = (Inl err, w1, cs1) \<longleftrightarrow>
     (\<exists>h. beforeSave cfg = Some h \<and> h (currentEntity st) (world st) = (Inl err, w1) \<and>
        cs1 = calls st @ [Call_beforeSave (currentEntity st)])"
  by (auto simp: applyBeforeSave_def split: option.splits prod.splits)

lemma applyAfterSave_threw:
  "applyAfterSave cfg e w cs = (Inl err, w3, cs3) \<longleftrightarrow>
     (\<exists>h. afterSave cfg = Some h \<and> h e w = (Inl err, w3) \<and> cs3 = cs @ [Call_afterSave e])"
  by (auto simp: applyAfterSave_def split: option.splits prod.splits)

lemma persistAndReport_threw:
  "fst (persistAndReport cfg eid st) = Inl err \<longleftrightarrow>
     (\<exists>h w1. beforeSave cfg = Some h \<and> h (currentEntity st) (world st) = (Inl err, w1)) \<or>
     (\<exists>e w1 cs1 u w2 h w3. applyBeforeSave cfg st = (Inr e, w1, cs1) \<and>
        saveEntity cfg eid e w1 = (Inr u, w2) \<and> afterSave cfg = Some h \<and> h e w2 = (Inl err, w3))"
  (is "?L \<longleftrightarrow> ?B \<or> ?A")
proof
  assume L: ?L
  obtain r w1 cs1 where bs: "applyBeforeSave cfg st = (r, w1, cs1)" by (metis surj_pair)
  show "?B \<or> ?A"
  proof (cases r)
    case (Inl err')
    with bs L have "err' = err" by (simp add: persist_beforeSave_threw)
    with bs Inl show ?thesis by (auto simp: applyBeforeSave_threw)
  next
    case (Inr e)
    with bs have bs': "applyBeforeSave cfg st = (Inr e, w1, cs1)" by simp
    from bs' show ?thesis
    proof (cases rule: persistAndReport_cases [where eid = eid])
      case (save_threw err' w2)
      with L show ?thesis by simp
    next
      case (hook_threw u w2 err' w3 cs3)
      with L have "err' = err" by simp
      with hook_threw(1,2) bs' show ?thesis by (auto simp: applyAfterSave_threw)
    next
      case (saved u w2 u' w3 cs3)
      with L show ?thesis by simp
    qed
  qed
next
  assume "?B \<or> ?A"
  then show ?L
  proof
    assume ?B
    then obtain h w1 where "beforeSave cfg = Some h" "h (currentEntity st) (world st) = (Inl err, w1)"
      by blast
    then have "applyBeforeSave cfg st = (Inl err, w1, calls st @ [Call_beforeSave (currentEntity st)])"
      by (simp add: applyBeforeSave_def)
    then show ?L by (simp add: persist_beforeSave_threw)
  next
    assume ?A
    then obtain e w1 cs1 u w2 h w3 where a: "applyBeforeSave cfg st = (Inr e, w1, cs1)"
      "saveEntity cfg eid e w1 = (Inr u, w2)" "afterSave cfg = Some h" "h e w2 = (Inl err, w3)"
      by blast
    from a(3,4) have "applyAfterSave cfg e w2 (cs1 @ [Call_saveEntity eid e]) =
        (Inl err, w3, (cs1 @ [Call_saveEntity eid e]) @ [Call_afterSave e])"
      by (simp add: applyAfterSave_def)
    from persist_afterSave_threw [OF a(1,2) this] show ?L by simp
  qed
qed

lemma agentic_execute_threw:
  "fst (agentic_execute cfg args w0) = Inl err \<longleftrightarrow>
     (\<exists>w1. resolveEntity cfg (entityId args) w0 = (Inl err, w1)) \<or>
     (\<exists>entity w1 v w2. resolveEntity cfg (entityId args) w0 = (Inr (Some entity), w1) \<and>
         validateEntity cfg = Some v \<and> v entity w1 = (Inl err, w2)) \<or>
     (\<exists>st h w1. afterLoop cfg args w0 = Some st \<and> beforeSave cfg = Some h \<and>
         h (currentEntity st) (world st) = (Inl err, w1)) \<or>
     (\<exists>st e w1 cs1 u w2 h w3. afterLoop cfg args w0 = Some st \<and>
         applyBeforeSave cfg st = (Inr e, w1, cs1) \<and>
         saveEntity cfg (entityId args) e w1 = (Inr u, w2) \<and>
         afterSave cfg = Some h \<and> h e w2 = (Inl err, w3))"
  (is "?L \<longleftrightarrow> ?R1 \<or> ?R2 \<or> ?R3 \<or> ?R4")
proof (cases "resolveAndValidate cfg (entityId args) w0")
  case (Inl ended)
  obtain r w cs where ended: "ended = (r, w, cs)" by (metis surj_pair)
  have run: "agentic_execute cfg args w0 = (r, w, cs)"
    using Inl ended by (simp add: agentic_execute_def)
  have no_loop: "afterLoop cfg args w0 = None"
    using Inl by (simp add: afterLoop_def loopEntry_def)
  have "r = Inl err \<longleftrightarrow> ?R1 \<or> ?R2"
    using Inl ended resolveAndValidate_threw [of cfg "entityId args" w0 err w cs]
    by (cases r) (auto simp: resolveAndValidate_def split: prod.splits sum.splits option.splits if_splits)
  then show ?thesis using run no_loop by simp
next
  case (Inr go)
  obtain entity w1 cs1 where go: "go = (entity, w1, cs1)" by (metis surj_pair)
  have rv: "resolveAndValidate cfg (entityId args) w0 = Inr (entity, w1, cs1)"
    using Inr go by simp
  have not12: "\<not> ?R1" "\<not> ?R2"
    using rv by (auto simp: resolveAndValidate_def split: prod.splits sum.splits option.splits if_splits)
  show ?thesis
  proof (cases "buildModifications args = []")
    case True
    then have "afterLoop cfg args w0 = None" using rv by (simp add: afterLoop_def loopEntry_def)
    moreover have "\<exists>r. fst (agentic_execute cfg args w0) = Inr r"
      using rv True by (simp add: agentic_execute_def)
    ultimately show ?thesis using not12 by auto
  next
    case False
    then obtain st where st: "afterLoop cfg args w0 = Some st"
      using rv by (simp add: afterLoop_def loopEntry_def)
    have "agentic_execute cfg args w0 = persistAndReport cfg (entityId args) st"
      using st by (rule agentic_execute_afterLoop)
    then have L: "?L \<longleftrightarrow>
        (\<exists>h w1. beforeSave cfg = Some h \<and> h (currentEntity st) (world st) = (Inl err, w1)) \<or>
        (\<exists>e w1 cs1 u w2 h w3. applyBeforeSave cfg st = (Inr e, w1, cs1) \<and>
           saveEntity cfg (entityId args) e w1 = (Inr u, w2) \<and> afterSave cfg = Some h \<and>
           h e w2 = (Inl err, w3))"
      using persistAndReport_threw [of cfg "entityId args" st err] by simp
    have R3: "?R3 \<longleftrightarrow>
        (\<exists>h w1. beforeSave cfg = Some h \<and> h (currentEntity st) (world st) = (Inl err, w1))"
      using st by simp
    have R4: "?R4 \<longleftrightarrow>
        (\<exists>e w1 cs1 u w2 h w3. applyBeforeSave cfg st = (Inr e, w1, cs1) \<and>
           saveEntity cfg (entityId args) e w1 = (Inr u, w2) \<and> afterSave cfg = Some h \<and>
           h e w2 = (Inl err, w3))"
      using st by simp
    from L R3 R4 not12 show ?thesis by blast
  qed
qed

lemma itemFate_cases:
  obtains (unknown) "acts (action m) = None" "itemFate acts m st = UnknownAction"
  | (invalid) h line where "acts (action m) = Some h" "validateItem h m = Inl line"
      "itemFate acts m st = ValidationFailed line"
  | (threw) h p e' err w' where "acts (action m) = Some h" "validateItem h m = Inr p"
      "execute h (currentEntity st) p (world st) = ((e', Inl err), w')"
      "itemFate acts m st = HandlerThrew err"
  | (completed) h p e' r w' where "acts (action m) = Some h" "validateItem h m = Inr p"
      "execute h (currentEntity st) p (world st) = ((e', Inr r), w')"
      "itemFate acts m st = HandlerCompleted"
proof (cases "acts (action m)")
  case None
  then show thesis using unknown by (simp add: itemFate_def)
next
  case (Some h)
  show thesis
  proof (cases "validateItem h m")
    case (Inl line)
    with Some show thesis using invalid by (simp add: itemFate_def)
  next
    case (Inr p)
    obtain e' c w' where ex: "execute h (currentEntity st) p (world st) = ((e', c), w')"
      by (metis surj_pair)
    show thesis
    proof (cases c)
      case (Inl err)
      with Some Inr ex show thesis using threw by (simp add: itemFate_def)
    next
      case r: (Inr r)
      with Some Inr ex show thesis using completed by (simp add: itemFate_def)
    qed
  qed
qed

lemma processItem_fate_counts:
  "successCount (results (processItem acts m st)) =
     successCount (results st) + (if itemFate acts m st = HandlerCompleted then 1 else 0)"
  "errorCount (results (processItem acts m st)) =
     errorCount (results st) + (if itemFate acts m st = HandlerCompleted then 0 else 1)"
proof -
  show "successCount (results (processItem acts m st)) =
     successCount (results st) + (if itemFate acts m st = HandlerCompleted then 1 else 0)"
  proof (cases rule: itemFate_cases [of acts m st])
    case unknown
    then show ?thesis by (simp add: processItem_unknown counts_one)
  next
    case (invalid h line)
    then show ?thesis
      using validateItem_line [OF invalid(2)] by (auto simp: processItem_invalid counts_one)
  next
    case (threw h p e' err w')
    then show ?thesis by (simp add: processItem_threw counts_one)
  next
    case (completed h p e' r w')
    then show ?thesis by (simp add: processItem_completed counts_one)
  qed
  show "errorCount (results (processItem acts m st)) =
     errorCount (results st) + (if itemFate acts m st = HandlerCompleted then 0 else 1)"
  proof (cases rule: itemFate_cases [of acts m st])
    case unknown
    then show ?thesis by (simp add: processItem_unknown counts_one)
  next
    case (invalid h line)
    then show ?thesis
      using validateItem_line [OF invalid(2)] by (auto simp: processItem_invalid counts_one)
  next
    case (threw h p e' err w')
    then show ?thesis by (simp add: processItem_threw counts_one)
  next
    case (completed h p e' r w')
    then show ?thesis by (simp add: processItem_completed counts_one)
  qed
qed

lemma processItem_threw_line:
  "itemFate acts m st = HandlerThrew err \<Longrightarrow>
     results (processItem acts m st) =
       results st @ [cross_mark @ '' '' @ action m @ '' failed: '' @ thrown_message err]"
  by (cases rule: itemFate_cases [of acts m st]) (simp_all add: processItem_threw)

lemma processItem_ready_calls:
  "acts (action m) = Some h \<Longrightarrow> validateItem h m = Inr p \<Longrightarrow>
     calls (processItem acts m st) = calls st @ [Call_execute (action m) (currentEntity st)]"
  by (auto simp: processItem_def split: prod.splits sum.splits)

lemma processItem_failed_state:
  "itemFate acts m st = UnknownAction \<or> itemFate acts m st = ValidationFailed line \<Longrightarrow>
     currentEntity (processItem acts m st) = currentEntity st \<and>
     world (processItem acts m st) = world st \<and> calls (processItem acts m st) = calls st"
  by (cases rule: itemFate_cases [of acts m st])
     (auto simp: processItem_unknown processItem_invalid)

lemma applyModifications_calls_mono:
  "set (calls st) \<subseteq> set (calls (applyModifications acts ms st))"
  using applyModifications_calls [of acts ms st] by auto

lemma applyModifications_split:
  "i < length ms \<Longrightarrow>
     applyModifications acts ms st =
       applyModifications acts (drop (Suc i) ms)
         (processItem acts (ms ! i) (applyModifications acts (take i ms) st))"
proof -
  assume "i < length ms"
  then have "ms = take i ms @ (ms ! i) # drop (Suc i) ms"
    by (simp add: id_take_nth_drop)
  then have "applyModifications acts ms st =
      applyModifications acts (take i ms @ (ms ! i) # drop (Suc i) ms) st" by simp
  then show ?thesis by (simp only: applyModifications_append applyModifications.simps)
qed

lemma ready_item_is_executed:
  assumes "i < length ms" "acts (action (ms ! i)) = Some h" "validateItem h (ms ! i) = Inr p"
  shows "Call_execute (action (ms ! i)) (currentEntity (applyModifications acts (take i ms) st))
           \<in> set (calls (applyModifications acts ms st))"
proof -
  let ?before = "applyModifications acts (take i ms) st"
  have "Call_execute (action (ms ! i)) (currentEntity ?before)
          \<in> set (calls (processItem acts (ms ! i) ?before))"
    using assms(2,3) by (simp add: processItem_ready_calls)
  then show ?thesis
    using applyModifications_calls_mono [of "processItem acts (ms ! i) ?before" acts "drop (Suc i) ms"]
    by (subst applyModifications_split [OF assms(1)]) blast
qed

lemma str_join_member: "x \<in> set xs \<Longrightarrow> sublist x (str_join sep xs)"
proof (induction sep xs rule: str_join.induct)
  case (1 sep)
  then show ?case by simp
next
  case (2 sep y)
  then show ?case by simp
next
  case (3 sep y z zs)
  show ?case
  proof (cases "x = y")
    case True
    then show ?thesis by simp
  next
    case False
    with 3 have "sublist x (str_join sep (z # zs))" by simp
    then have "sublist x ((y @ sep) @ str_join sep (z # zs))"
      by (rule sublist_order.order.trans) (rule sublist_append_leftI)
    then show ?thesis by simp
  qed
qed

lemma applyModifications_fate_counts:
  "successCount (results (applyModifications acts ms st)) =
     successCount (results st) +
       length (filter (\<lambda>i. itemFate acts (ms ! i) (applyModifications acts (take i ms) st)
                              = HandlerCompleted) [0..<length ms])"
proof (induction ms rule: rev_induct)
  case Nil
  then show ?case by simp
next
  case (snoc m ms)
  have same: "filter (\<lambda>i. itemFate acts ((ms @ [m]) ! i)
                  (applyModifications acts (take i (ms @ [m])) st) = HandlerCompleted) [0..<length ms]
        = filter (\<lambda>i. itemFate acts (ms ! i)
                  (applyModifications acts (take i ms) st) = HandlerCompleted) [0..<length ms]"
    by (rule filter_cong) (auto simp: nth_append)
  show ?case
    using snoc same
    by (simp add: applyModifications_snoc processItem_fate_counts)
qed

lemma agentic_execute_save_call:
  assumes "afterLoop cfg args w0 = Some st"
    and "applyBeforeSave cfg st = (Inr e, w1, cs1)"
  shows "\<exists>pre post. snd (snd (agentic_execute cfg args w0)) =
            calls st @ pre @ [Call_saveEntity (entityId args) e] @ post
          \<and> filter isSaveCall (snd (snd (agentic_execute cfg args w0))) =
            [Call_saveEntity (entityId args) e]"
proof -
  have run: "agentic_execute cfg args w0 = persistAndReport cfg (entityId args) st"
    using assms(1) by (rule agentic_execute_afterLoop)
  obtain pre post where cs:
    "snd (snd (persistAndReport cfg (entityId args) st)) =
       calls st @ pre @ [Call_saveEntity (entityId args) e] @ post"
    "pre = [] \<or> pre = [Call_beforeSave (currentEntity st)]"
    "post = [] \<or> post = [Call_afterSave e]"
    using persistAndReport_calls [OF assms(2)] by blast
  from cs(2,3) have "filter isSaveCall pre = []" "filter isSaveCall post = []" by auto
  then have "filter isSaveCall (snd (snd (agentic_execute cfg args w0))) =
       [Call_saveEntity (entityId args) e]"
    using run cs(1) afterLoop_no_save [OF assms(1)] by simp
  with run cs(1) show ?thesis by auto
qed

lemma applyModifications_nth:
  "i < length ms \<Longrightarrow>
     results (applyModifications acts ms st) ! (length (results st) + i) =
       last (results (processItem acts (ms ! i) (applyModifications acts (take i ms) st)))"
  by (simp add: applyModifications_results [of acts ms st])

lemma one_of_three:
  assumes "k < 3" "\<not> P k" "\<forall>i < 3. i \<noteq> k \<longrightarrow> P i"
  shows "length (filter P [0..<3]) = 2"
proof -
  have l: "[0..<3] = [0, 1, 2]" by (simp add: upt_rec)
  from assms(1) consider "k = 0" | "k = 1" | "k = 2" by linarith
  then show ?thesis
  proof cases
    case 1
    with assms(2,3) have "\<not> P 0" "P 1" "P 2" by auto
    then show ?thesis by (simp add: l)
  next
    case 2
    with assms(2,3) have "P 0" "\<not> P 1" "P 2" by auto
    then show ?thesis by (simp add: l)
  next
    case 3
    with assms(2,3) have "P 0" "P 1" "\<not> P 2" by auto
    then show ?thesis by (simp add: l)
  qed
qed

lemma bad_weight_scenario:
  fixes cfg :: "('e, 'v, 'w) AgenticToolConfig"
  assumes entry: "loopEntry cfg args w0 = Some st0"
    and three: "length (buildModifications args) = 3" and k: "k < 3"
    and threw: "itemFate (actions cfg) (buildModifications args ! k)
        (applyModifications (actions cfg) (take k (buildModifications args)) st0) = HandlerThrew err"
    and msg: "thrown_message err = ''bad weight''"
    and others: "\<forall>i < 3. i \<noteq> k \<longrightarrow>
        itemFate (actions cfg) (buildModifications args ! i)
          (applyModifications (actions cfg) (take i (buildModifications args)) st0) = HandlerCompleted"
    and saves: "savesCleanly cfg (entityId args)
        (applyModifications (actions cfg) (buildModifications args) st0)"
  shows "\<exists>r. fst (agentic_execute cfg args w0) = Inr r \<and> success r \<and>
           updated r = Some \<lparr>summaryEntityId = entityId args, modificationsApplied = 2,
                              errors = 1\<rparr> \<and>
           str_includes (message r) ''bad weight''"
proof -
  define ms where "ms = buildModifications args"
  define st where "st = applyModifications (actions cfg) ms st0"
  define fate where "fate i = itemFate (actions cfg) (ms ! i)
      (applyModifications (actions cfg) (take i ms) st0)" for i
  have al: "afterLoop cfg args w0 = Some st"
    using entry by (simp add: afterLoop_def st_def ms_def)
  have run: "fst (agentic_execute cfg args w0) =
      Inr (successResult (str_join [CHR 0x0A] (results st))
             (Some \<lparr>summaryEntityId = entityId args,
                    modificationsApplied = successCount (results st),
                    errors = errorCount (results st)\<rparr>) None)"
    using saves savesCleanly_result [of cfg "entityId args" st]
    by (simp add: agentic_execute_afterLoop [OF al] st_def ms_def)
  have "length (filter (\<lambda>i. fate i = HandlerCompleted) [0..<3]) = 2"
    using k threw others by (intro one_of_three [of k]) (simp_all add: fate_def ms_def)
  then have succ: "successCount (results st) = 2"
    using applyModifications_fate_counts [of "actions cfg" ms st0] loopEntry_counts [OF entry] three
    by (simp add: st_def fate_def ms_def)
  have "successCount (results st) + errorCount (results st) = 3"
    using applyModifications_counts [of "actions cfg" ms st0] loopEntry_counts [OF entry] three
    by (simp add: st_def ms_def)
  with succ have err: "errorCount (results st) = 1" by simp
  define line where "line = cross_mark @ '' '' @ action (ms ! k) @ '' failed: '' @ ''bad weight''"
  have len: "length (results st) = 3"
    using applyModifications_length [of "actions cfg" ms st0] loopEntry_results [OF entry] three
    by (simp add: st_def ms_def)
  have "results st ! k = last (results (processItem (actions cfg) (ms ! k)
      (applyModifications (actions cfg) (take k ms) st0)))"
    using k three loopEntry_results [OF entry] applyModifications_nth [of k ms "actions cfg" st0]
    by (simp add: st_def ms_def)
  also have "\<dots> = line"
    using processItem_threw_line [OF threw] msg by (simp add: line_def ms_def)
  finally have "results st ! k = line" .
  with k len have "line \<in> set (results st)" by (metis nth_mem)
  then have in_msg: "sublist line (str_join [CHR 0x0A] (results st))" by (rule str_join_member)
  have "line = (cross_mark @ '' '' @ action (ms ! k) @ '' failed: '') @ ''bad weight'' @ []"
    by (simp add: line_def)
  then have "sublist ''bad weight'' line" by (simp only: sublist_appendI)
  from this in_msg have "sublist ''bad weight'' (str_join [CHR 0x0A] (results st))"
    by (rule sublist_order.order.trans)
  then have "str_includes (str_join [CHR 0x0A] (results st)) ''bad weight''"
    by (simp only: str_includes_sublist)
  with run succ err show ?thesis by (simp add: successResult_def)
qed

subsection \<open>Partial failure\<close>

text \<open>
  Claim C2, as the code has it. A failure of one item never aborts the loop. Every item after it is still
  processed, in the state its predecessors left: a failed lookup or validation leaves
  the entity, the world and the calls untouched, and every item that names a known
  action and passes validation has its handler called with the current entity,
  whatever happened to the items before it. The loop always hands over to the
  persistence steps, and once \<open>beforeSave\<close> (when configured) has returned,
  \<open>saveEntity\<close> is called after all the handler calls. For a batch of three items of
  which exactly one throws \<open>bad weight\<close> while the other two complete, a run that
  saves cleanly reports 2 successes and 1 failure, with \<open>bad weight\<close> in its message.
\<close>

theorem item_failure_never_aborts:
  "applyModifications acts (xs @ m # ys) st =
     applyModifications acts ys (processItem acts m (applyModifications acts xs st))
   \<and> (\<forall>line. itemFate acts m st = UnknownAction \<or> itemFate acts m st = ValidationFailed line \<longrightarrow>
         currentEntity (processItem acts m st) = currentEntity st \<and>
         world (processItem acts m st) = world st \<and> calls (processItem acts m st) = calls st)
   \<and> (\<forall>i h p. i < length ms \<and> acts (action (ms ! i)) = Some h \<and>
         validateItem h (ms ! i) = Inr p \<longrightarrow>
         Call_execute (action (ms ! i)) (currentEntity (applyModifications acts (take i ms) st))
           \<in> set (calls (applyModifications acts ms st)))
   \<and> (\<forall>cfg args w0 stL e w1 cs1.
         actions cfg = acts \<and> afterLoop cfg args w0 = Some stL \<and>
         applyBeforeSave cfg stL = (Inr e, w1, cs1) \<longrightarrow>
         (\<exists>pre post. snd (snd (agentic_execute cfg args w0)) =
            calls stL @ pre @ [Call_saveEntity (entityId args) e] @ post))
   \<and> (\<forall>cfg args w0 st0 k err.
         actions cfg = acts \<and> loopEntry cfg args w0 = Some st0 \<and>
         length (buildModifications args) = 3 \<and> k < 3 \<and>
         itemFate acts (buildModifications args ! k)
           (applyModifications acts (take k (buildModifications args)) st0) = HandlerThrew err \<and>
         thrown_message err = ''bad weight'' \<and>
         (\<forall>i < 3. i \<noteq> k \<longrightarrow>
            itemFate acts (buildModifications args ! i)
              (applyModifications acts (take i (buildModifications args)) st0) = HandlerCompleted) \<and>
         savesCleanly cfg (entityId args) (applyModifications acts (buildModifications args) st0) \<longrightarrow>
         (\<exists>r. fst (agentic_execute cfg args w0) = Inr r \<and> success r \<and>
            updated r = Some \<lparr>summaryEntityId = entityId args, modificationsApplied = 2,
                               errors = 1\<rparr> \<and>
            str_includes (message r) ''bad weight''))"
proof (intro conjI allI impI)
  show "applyModifications acts (xs @ m # ys) st =
     applyModifications acts ys (processItem acts m (applyModifications acts xs st))"
    by (simp add: applyModifications_append)
  show "currentEntity (processItem acts m st) = currentEntity st"
    "world (processItem acts m st) = world st" "calls (processItem acts m st) = calls st"
    if "itemFate acts m st = UnknownAction \<or> itemFate acts m st = ValidationFailed line" for line
    using processItem_failed_state [OF that] by simp_all
  show "Call_execute (action (ms ! i)) (currentEntity (applyModifications acts (take i ms) st))
           \<in> set (calls (applyModifications acts ms st))"
    if "i < length ms \<and> acts (action (ms ! i)) = Some h \<and> validateItem h (ms ! i) = Inr p"
    for i h p
    using that ready_item_is_executed [of i ms acts h p st] by simp
  show "\<exists>pre post. snd (snd (agentic_execute cfg args w0)) =
            calls stL @ pre @ [Call_saveEntity (entityId args) e] @ post"
    if "actions cfg = acts \<and> afterLoop cfg args w0 = Some stL \<and>
         applyBeforeSave cfg stL = (Inr e, w1, cs1)" for cfg args w0 stL e w1 cs1
    using that agentic_execute_save_call [of cfg args w0 stL e w1 cs1] by blast
  show "\<exists>r. fst (agentic_execute cfg args w0) = Inr r \<and> success r \<and>
            updated r = Some \<lparr>summaryEntityId = entityId args, modificationsApplied = 2,
                               errors = 1\<rparr> \<and>
            str_includes (message r) ''bad weight''"
    if "actions cfg = acts \<and> loopEntry cfg args w0 = Some st0 \<and>
         length (buildModifications args) = 3 \<and> k < 3 \<and>
         itemFate acts (buildModifications args ! k)
           (applyModifications acts (take k (buildModifications args)) st0) = HandlerThrew err \<and>
         thrown_message err = ''bad weight'' \<and>
         (\<forall>i < 3. i \<noteq> k \<longrightarrow>
            itemFate acts (buildModifications args ! i)
              (applyModifications acts (take i (buildModifications args)) st0) = HandlerCompleted) \<and>
         savesCleanly cfg (entityId args) (applyModifications acts (buildModifications args) st0)"
    for cfg args w0 st0 k err
    using that bad_weight_scenario [of cfg args w0 st0 k err] by simp
qed

text \<open>
  The second of three items throws \<open>bad weight\<close>; the third is still run, against the
  entity the first one produced, and the entity with both changes is saved.
\<close>

theorem item_failure_never_aborts_witness:
  "Call_execute ''set_weight'' [70, 80, 100]
     \<in> set (calls (applyModifications (actions demoConfig) threeItems demoState))
   \<and> currentEntity (applyModifications (actions demoConfig) threeItems demoState) = [70, 80, 110]
   \<and> (\<exists>pre post. snd (snd (agentic_execute demoConfig (batchArgs ''p1'' threeItems) demoStore)) =
         calls (applyModifications (actions demoConfig) threeItems demoState) @ pre @
         [Call_saveEntity ''p1'' [70, 80, 110]] @ post)
   \<and> (\<exists>r. fst (agentic_execute demoConfig (batchArgs ''p1'' threeItems) demoStore) = Inr r \<and>
         success r \<and>
         updated r = Some \<lparr>summaryEntityId = ''p1'', modificationsApplied = 2, errors = 1\<rparr> \<and>
         str_includes (message r) ''bad weight'')
   \<and> fst (snd (agentic_execute demoConfig (batchArgs ''p1'' threeItems) demoStore)) =
       (''p1'', [70, 80, 110]) # demoStore"
proof -
  let ?acts = "actions demoConfig"
  let ?args = "batchArgs ''p1'' threeItems"
  have known: "?acts (action (threeItems ! 2)) = Some set_weight"
    by (simp add: demoConfig_def threeItems_def modification_def)
  have ready: "(2::nat) < length threeItems"
    "validateItem set_weight (threeItems ! 2) = Inr \<lparr>target = Some 2, changes = Some 110, newData = None\<rparr>"
    "action (threeItems ! 2) = ''set_weight''"
    "currentEntity (applyModifications ?acts (take 2 threeItems) demoState) = [70, 80, 100]"
    "currentEntity (applyModifications ?acts threeItems demoState) = [70, 80, 110]"
    by code_simp+
  have entry: "loopEntry demoConfig ?args demoStore = Some demoState"
    "buildModifications ?args = threeItems" "length threeItems = 3" "entityId ?args = ''p1''"
    by code_simp+
  have fates:
    "itemFate ?acts (threeItems ! 0) (applyModifications ?acts (take 0 threeItems) demoState)
       = HandlerCompleted"
    "itemFate ?acts (threeItems ! 1) (applyModifications ?acts (take 1 threeItems) demoState)
       = HandlerThrew (JsError ''bad weight'')"
    "itemFate ?acts (threeItems ! 2) (applyModifications ?acts (take 2 threeItems) demoState)
       = HandlerCompleted"
    "thrown_message (JsError ''bad weight'') = ''bad weight''"
    by code_simp+
  have others: "\<forall>i < 3. i \<noteq> 1 \<longrightarrow>
      itemFate ?acts (threeItems ! i) (applyModifications ?acts (take i threeItems) demoState)
        = HandlerCompleted"
  proof (intro allI impI)
    fix i :: nat
    assume "i < 3" "i \<noteq> 1"
    then have "i = 0 \<or> i = 2" by linarith
    then show "itemFate ?acts (threeItems ! i)
        (applyModifications ?acts (take i threeItems) demoState) = HandlerCompleted"
      using fates(1,3) by auto
  qed
  have saves: "savesCleanly demoConfig ''p1'' (applyModifications ?acts threeItems demoState)"
    "afterLoop demoConfig ?args demoStore = Some (applyModifications ?acts threeItems demoState)"
    "applyBeforeSave demoConfig (applyModifications ?acts threeItems demoState) =
       (Inr [70, 80, 110], demoStore, calls (applyModifications ?acts threeItems demoState))"
    "fst (snd (agentic_execute demoConfig ?args demoStore)) = (''p1'', [70, 80, 110]) # demoStore"
    by code_simp+
  note T = item_failure_never_aborts [of ?acts "[]" "threeItems ! 0" "[]" demoState threeItems]
  have 1: "Call_execute ''set_weight'' [70, 80, 100]
     \<in> set (calls (applyModifications ?acts threeItems demoState))"
    using T [THEN conjunct2, THEN conjunct2, THEN conjunct1, rule_format,
        of 2 set_weight "\<lparr>target = Some 2, changes = Some 110, newData = None\<rparr>"] known ready
    by simp
  have 2: "\<exists>pre post. snd (snd (agentic_execute demoConfig ?args demoStore)) =
         calls (applyModifications ?acts threeItems demoState) @ pre @
         [Call_saveEntity ''p1'' [70, 80, 110]] @ post"
    using T [THEN conjunct2, THEN conjunct2, THEN conjunct2, THEN conjunct1, rule_format,
        of demoConfig ?args demoStore "applyModifications ?acts threeItems demoState"
          "[70, 80, 110]" demoStore "calls (applyModifications ?acts threeItems demoState)"]
      saves(2,3) entry(4) by simp
  have 3: "\<exists>r. fst (agentic_execute demoConfig ?args demoStore) = Inr r \<and> success r \<and>
         updated r = Some \<lparr>summaryEntityId = ''p1'', modificationsApplied = 2, errors = 1\<rparr> \<and>
         str_includes (message r) ''bad weight''"
    using T [THEN conjunct2, THEN conjunct2, THEN conjunct2, THEN conjunct2, rule_format,
        of demoConfig ?args demoStore demoState 1 "JsError ''bad weight''"]
      entry fates(2,4) others saves(1) by simp
  from 1 2 3 ready(5) saves(4) show ?thesis by simp
qed

text \<open>
  Claim C2 as stated fails in its own scenario, three items of which the second throws
  \<open>bad weight\<close>. With a \<open>beforeSave\<close> hook that throws, \<open>saveEntity\<close> is not called and
  no result is returned. With a store that refuses the save, the result is the save
  error and reports no counts.
\<close>

theorem bad_weight_without_save:
  "itemFate (actions beforeSaveThrows) (threeItems ! 1)
       (applyModifications (actions beforeSaveThrows) (take 1 threeItems) demoState) =
     HandlerThrew (JsError ''bad weight'')
   \<and> agentic_execute beforeSaveThrows (batchArgs ''p1'' threeItems) demoStore =
     (Inl (JsError ''hook failed''), demoStore,
      [Call_resolveEntity ''p1'', Call_execute ''set_weight'' [60, 80, 100],
       Call_execute ''set_weight'' [70, 80, 100], Call_execute ''set_weight'' [70, 80, 100],
       Call_beforeSave [70, 80, 110]])
   \<and> filter isSaveCall
       (snd (snd (agentic_execute beforeSaveThrows (batchArgs ''p1'' threeItems) demoStore))) = []
   \<and> results (the (afterLoop demoConfig (batchArgs ''frozen'' threeItems) demoStore)) =
       [check_mark @ '' set_weight completed'',
        cross_mark @ '' set_weight failed: bad weight'',
        check_mark @ '' set_weight completed'']
   \<and> fst (agentic_execute demoConfig (batchArgs ''frozen'' threeItems) demoStore) =
     Inr \<lparr>success = False, message = ''Modification failed'', updated = None,
          affectedCount = None, error = Some ''Save failed: store is read-only''\<rparr>"
  by code_simp

subsection \<open>The aggregate result\<close>

text \<open>
  Claim C4, as the code has it. Once the loop is done and \<open>beforeSave\<close> (when
  configured) has returned, the aggregate result that \<open>execute\<close> returns has
  \<open>success = true\<close> exactly when \<open>saveEntity\<close> did not throw. When it throws, the result
  is the error result whose \<open>error\<close> is \<open>Save failed:\<close> with the message of what was
  thrown, and it carries none of the outcome lines. When it returns and \<open>afterSave\<close>
  (when configured) returns, the result has \<open>success = true\<close>, the outcome lines joined
  by line feeds as its message, and the counts of the lines that succeeded and failed,
  which add up to the number of items, however many of them failed. When \<open>afterSave\<close>
  throws after the save, no result is returned: the run ends with the thrown value.
\<close>

theorem success_iff_saved:
  assumes "afterLoop cfg args w0 = Some st"
    and "applyBeforeSave cfg st = (Inr e, w1, cs1)"
  shows
    "(\<forall>err w2. saveEntity cfg (entityId args) e w1 = (Inl err, w2) \<longrightarrow>
        agentic_execute cfg args w0 =
          (Inr \<lparr>success = False, message = ''Modification failed'', updated = None,
                affectedCount = None,
                error = Some (''Save failed: '' @ thrown_message err)\<rparr>,
           w2, cs1 @ [Call_saveEntity (entityId args) e]))
     \<and> (returns (saveEntity cfg (entityId args) e w1) \<and>
        returns (applyAfterSave cfg e (snd (saveEntity cfg (entityId args) e w1))
                   (cs1 @ [Call_saveEntity (entityId args) e])) \<longrightarrow>
        fst (agentic_execute cfg args w0) =
          Inr \<lparr>success = True, message = str_join [CHR 0x0A] (results st),
                updated = Some \<lparr>summaryEntityId = entityId args,
                                 modificationsApplied = successCount (results st),
                                 errors = errorCount (results st)\<rparr>,
                affectedCount = None, error = None\<rparr>)
     \<and> (\<forall>r. fst (agentic_execute cfg args w0) = Inr r \<longrightarrow>
          (success r \<longleftrightarrow> returns (saveEntity cfg (entityId args) e w1)))
     \<and> successCount (results st) + errorCount (results st) = length (buildModifications args)
     \<and> (\<forall>u w2 err w3 cs3.
          saveEntity cfg (entityId args) e w1 = (Inr u, w2) \<and>
          applyAfterSave cfg e w2 (cs1 @ [Call_saveEntity (entityId args) e]) = (Inl err, w3, cs3) \<longrightarrow>
          agentic_execute cfg args w0 = (Inl err, w3, cs3))"
proof -
  have run: "agentic_execute cfg args w0 = persistAndReport cfg (entityId args) st"
    using assms(1) by (rule agentic_execute_afterLoop)
  obtain st0 where st0: "loopEntry cfg args w0 = Some st0"
    "st = applyModifications (actions cfg) (buildModifications args) st0"
    using assms(1) by (auto simp: afterLoop_Some)
  have counts: "successCount (results st) + errorCount (results st) = length (buildModifications args)"
    using applyModifications_counts [of "actions cfg" "buildModifications args" st0]
      loopEntry_results [OF st0(1)] st0(2)
    by (simp add: successCount_def errorCount_def)
  have threw: "\<forall>u w2 err w3 cs3.
          saveEntity cfg (entityId args) e w1 = (Inr u, w2) \<and>
          applyAfterSave cfg e w2 (cs1 @ [Call_saveEntity (entityId args) e]) = (Inl err, w3, cs3) \<longrightarrow>
          agentic_execute cfg args w0 = (Inl err, w3, cs3)"
    using run persist_afterSave_threw [OF assms(2)] by simp
  have main: "(\<forall>err w2. saveEntity cfg (entityId args) e w1 = (Inl err, w2) \<longrightarrow>
        agentic_execute cfg args w0 =
          (Inr \<lparr>success = False, message = ''Modification failed'', updated = None,
                affectedCount = None,
                error = Some (''Save failed: '' @ thrown_message err)\<rparr>,
           w2, cs1 @ [Call_saveEntity (entityId args) e]))
     \<and> (returns (saveEntity cfg (entityId args) e w1) \<and>
        returns (applyAfterSave cfg e (snd (saveEntity cfg (entityId args) e w1))
                   (cs1 @ [Call_saveEntity (entityId args) e])) \<longrightarrow>
        fst (agentic_execute cfg args w0) =
          Inr \<lparr>success = True, message = str_join [CHR 0x0A] (results st),
                updated = Some \<lparr>summaryEntityId = entityId args,
                                 modificationsApplied = successCount (results st),
                                 errors = errorCount (results st)\<rparr>,
                affectedCount = None, error = None\<rparr>)
     \<and> (\<forall>r. fst (agentic_execute cfg args w0) = Inr r \<longrightarrow>
          (success r \<longleftrightarrow> returns (saveEntity cfg (entityId args) e w1)))
     \<and> successCount (results st) + errorCount (results st) = length (buildModifications args)"
    using assms(2)
  proof (cases rule: persistAndReport_cases [where eid = "entityId args"])
    case (save_threw err w2)
    then show ?thesis
      using run counts by (simp add: errorResult_def returns_def)
  next
    case (hook_threw u w2 err w3 cs3)
    then show ?thesis
      using run counts by (simp add: returns_def)
  next
    case (saved u w2 u' w3 cs3)
    then show ?thesis
      using run counts by (simp add: returns_def successResult_def)
  qed
  show ?thesis
    by (insert main threw, elim conjE, intro conjI) assumption+
qed

text \<open>
  Two unknown actions: under the id \<open>frozen\<close> the save throws and the result is the save
  error; under \<open>p1\<close> the save goes through and the result is a success with no
  modification applied and two errors. With an \<open>afterSave\<close> that throws, the run ends
  with the thrown value after the save.
\<close>

theorem success_iff_saved_witness:
  "agentic_execute demoConfig (batchArgs ''frozen'' unknownItems) demoStore =
     (Inr \<lparr>success = False, message = ''Modification failed'', updated = None,
           affectedCount = None, error = Some ''Save failed: store is read-only''\<rparr>,
      demoStore, [Call_resolveEntity ''frozen'', Call_saveEntity ''frozen'' [10]])
   \<and> fst (agentic_execute demoConfig (batchArgs ''p1'' unknownItems) demoStore) =
     Inr \<lparr>success = True,
          message = str_join [CHR 0x0A]
            [cross_mark @ '' Unknown action: rename'', cross_mark @ '' Unknown action: swap''],
          updated = Some \<lparr>summaryEntityId = ''p1'', modificationsApplied = 0, errors = 2\<rparr>,
          affectedCount = None, error = None\<rparr>
   \<and> agentic_execute afterSaveThrows (batchArgs ''p1'' threeItems) demoStore =
     (Inl (JsValue ''notify failed''), (''p1'', [70, 80, 110]) # demoStore,
      [Call_resolveEntity ''p1'', Call_execute ''set_weight'' [60, 80, 100],
       Call_execute ''set_weight'' [70, 80, 100], Call_execute ''set_weight'' [70, 80, 100],
       Call_saveEntity ''p1'' [70, 80, 110], Call_afterSave [70, 80, 110]])"
proof -
  let ?lines = "[cross_mark @ '' Unknown action: rename'', cross_mark @ '' Unknown action: swap'']"
  let ?frozen = "\<lparr>currentEntity = [10], results = ?lines, world = demoStore,
                  calls = [Call_resolveEntity ''frozen'']\<rparr>"
  let ?p1 = "\<lparr>currentEntity = [60, 80, 100], results = ?lines, world = demoStore,
              calls = [Call_resolveEntity ''p1'']\<rparr>"
  have frozen: "afterLoop demoConfig (batchArgs ''frozen'' unknownItems) demoStore = Some ?frozen"
    "applyBeforeSave demoConfig ?frozen = (Inr [10], demoStore, [Call_resolveEntity ''frozen''])"
    "saveEntity demoConfig (entityId (batchArgs ''frozen'' unknownItems)) [10] demoStore =
       (Inl (JsError ''store is read-only''), demoStore)"
    "entityId (batchArgs ''frozen'' unknownItems) = ''frozen''"
    by code_simp+
  have p1: "afterLoop demoConfig (batchArgs ''p1'' unknownItems) demoStore = Some ?p1"
    "applyBeforeSave demoConfig ?p1 = (Inr [60, 80, 100], demoStore, [Call_resolveEntity ''p1''])"
    "returns (saveEntity demoConfig (entityId (batchArgs ''p1'' unknownItems)) [60, 80, 100] demoStore)"
    "returns (applyAfterSave demoConfig [60, 80, 100]
       (snd (saveEntity demoConfig (entityId (batchArgs ''p1'' unknownItems)) [60, 80, 100] demoStore))
       ([Call_resolveEntity ''p1''] @
        [Call_saveEntity (entityId (batchArgs ''p1'' unknownItems)) [60, 80, 100]]))"
    "entityId (batchArgs ''p1'' unknownItems) = ''p1''"
    "successCount ?lines = 0" "errorCount ?lines = 2"
    by code_simp+
  let ?cs = "[Call_resolveEntity ''p1'', Call_execute ''set_weight'' [60, 80, 100],
       Call_execute ''set_weight'' [70, 80, 100], Call_execute ''set_weight'' [70, 80, 100]]"
  let ?st = "\<lparr>currentEntity = [70, 80, 110],
               results = [check_mark @ '' set_weight completed'',
                          cross_mark @ '' set_weight failed: bad weight'',
                          check_mark @ '' set_weight completed''],
               world = demoStore, calls = ?cs\<rparr>"
  have hook: "afterLoop afterSaveThrows (batchArgs ''p1'' threeItems) demoStore = Some ?st"
    "applyBeforeSave afterSaveThrows ?st = (Inr [70, 80, 110], demoStore, ?cs)"
    by code_simp+
  have threw: "saveEntity afterSaveThrows (entityId (batchArgs ''p1'' threeItems)) [70, 80, 110]
        demoStore = (Inr (), (''p1'', [70, 80, 110]) # demoStore) \<and>
      applyAfterSave afterSaveThrows [70, 80, 110] ((''p1'', [70, 80, 110]) # demoStore)
        (?cs @ [Call_saveEntity (entityId (batchArgs ''p1'' threeItems)) [70, 80, 110]]) =
        (Inl (JsValue ''notify failed''), (''p1'', [70, 80, 110]) # demoStore,
         ?cs @ [Call_saveEntity ''p1'' [70, 80, 110], Call_afterSave [70, 80, 110]])"
    by code_simp
  have 3: "agentic_execute afterSaveThrows (batchArgs ''p1'' threeItems) demoStore =
     (Inl (JsValue ''notify failed''), (''p1'', [70, 80, 110]) # demoStore,
      ?cs @ [Call_saveEntity ''p1'' [70, 80, 110], Call_afterSave [70, 80, 110]])"
    using success_iff_saved [OF hook, THEN conjunct2, THEN conjunct2, THEN conjunct2,
        THEN conjunct2, rule_format, OF threw] .
  show ?thesis
    using success_iff_saved [OF frozen(1,2)] frozen(3,4) success_iff_saved [OF p1(1,2)] p1(3-7) 3
    by simp
qed

text \<open>
  Claim C4 as stated fails when \<open>afterSave\<close> throws: the save has gone through (the store
  holds the entity, and \<open>saveEntity\<close> returned), yet no result with \<open>success = true\<close> is
  returned; the run ends with what \<open>afterSave\<close> threw.
\<close>

theorem saved_without_result:
  "returns (saveEntity afterSaveThrows ''p1'' [60, 80, 100] demoStore)
   \<and> agentic_execute afterSaveThrows (batchArgs ''p1'' unknownItems) demoStore =
     (Inl (JsValue ''notify failed''), (''p1'', [60, 80, 100]) # demoStore,
      [Call_resolveEntity ''p1'', Call_saveEntity ''p1'' [60, 80, 100],
       Call_afterSave [60, 80, 100]])"
  by code_simp

text \<open>
  Claim C5, as the code has it. Only the handler calls and the \<open>saveEntity\<close> call stand
  inside a \<open>try\<close>. An exception reaches the caller of \<open>execute\<close> exactly when it is
  thrown by \<open>resolveEntity\<close>, by \<open>validateEntity\<close>, by \<open>beforeSave\<close> on the entity the
  loop left, or by \<open>afterSave\<close> after a save that went through; so when these four never
  throw, \<open>execute\<close> returns a structured result on every input. What the handlers and
  \<open>saveEntity\<close> throw is caught, and the four fatal categories (entity not found,
  validation failed, no modification, save failed) come back as error results.
\<close>

theorem structured_result_unless_hook_throws:
  "(\<forall>err. fst (agentic_execute cfg args w0) = Inl err \<longleftrightarrow>
       (\<exists>w1. resolveEntity cfg (entityId args) w0 = (Inl err, w1)) \<or>
       (\<exists>entity w1 v w2. resolveEntity cfg (entityId args) w0 = (Inr (Some entity), w1) \<and>
           validateEntity cfg = Some v \<and> v entity w1 = (Inl err, w2)) \<or>
       (\<exists>st h w1. afterLoop cfg args w0 = Some st \<and> beforeSave cfg = Some h \<and>
           h (currentEntity st) (world st) = (Inl err, w1)) \<or>
       (\<exists>st e w1 cs1 u w2 h w3. afterLoop cfg args w0 = Some st \<and>
           applyBeforeSave cfg st = (Inr e, w1, cs1) \<and>
           saveEntity cfg (entityId args) e w1 = (Inr u, w2) \<and>
           afterSave cfg = Some h \<and> h e w2 = (Inl err, w3)))
   \<and> ((\<forall>eid w. returns (resolveEntity cfg eid w)) \<and>
       (\<forall>v e w. validateEntity cfg = Some v \<longrightarrow> returns (v e w)) \<and>
       (\<forall>h e w. beforeSave cfg = Some h \<longrightarrow> returns (h e w)) \<and>
       (\<forall>h e w. afterSave cfg = Some h \<longrightarrow> returns (h e w)) \<longrightarrow>
       (\<exists>r. fst (agentic_execute cfg args w0) = Inr r))
   \<and> (\<forall>w1. resolveEntity cfg (entityId args) w0 = (Inr None, w1) \<longrightarrow>
        fst (agentic_execute cfg args w0) =
          Inr (errorResult (domain cfg @ '' entity with ID '' @ entityId args @ '' not found'')))
   \<and> (\<forall>entity w1 v res w2.
        resolveEntity cfg (entityId args) w0 = (Inr (Some entity), w1) \<and>
        validateEntity cfg = Some v \<and> v entity w1 = (Inr res, w2) \<and> res \<noteq> VBool True \<longrightarrow>
        fst (agentic_execute cfg args w0) =
          Inr (errorResult (case res of VString s \<Rightarrow> s | VBool b \<Rightarrow> ''Entity validation failed'')))
   \<and> (\<forall>entity w1 cs1.
        resolveAndValidate cfg (entityId args) w0 = Inr (entity, w1, cs1) \<and>
        buildModifications args = [] \<longrightarrow>
        fst (agentic_execute cfg args w0) =
          Inr (errorResult ''No modification specified. Provide action+target or batch array.''))
   \<and> (\<forall>st e w1 cs1 err w2.
        afterLoop cfg args w0 = Some st \<and> applyBeforeSave cfg st = (Inr e, w1, cs1) \<and>
        saveEntity cfg (entityId args) e w1 = (Inl err, w2) \<longrightarrow>
        fst (agentic_execute cfg args w0) =
          Inr (errorResult (''Save failed: '' @ thrown_message err)))"
proof (intro conjI allI impI)
  show "fst (agentic_execute cfg args w0) = Inl err \<longleftrightarrow>
       (\<exists>w1. resolveEntity cfg (entityId args) w0 = (Inl err, w1)) \<or>
       (\<exists>entity w1 v w2. resolveEntity cfg (entityId args) w0 = (Inr (Some entity), w1) \<and>
           validateEntity cfg = Some v \<and> v entity w1 = (Inl err, w2)) \<or>
       (\<exists>st h w1. afterLoop cfg args w0 = Some st \<and> beforeSave cfg = Some h \<and>
           h (currentEntity st) (world st) = (Inl err, w1)) \<or>
       (\<exists>st e w1 cs1 u w2 h w3. afterLoop cfg args w0 = Some st \<and>
           applyBeforeSave cfg st = (Inr e, w1, cs1) \<and>
           saveEntity cfg (entityId args) e w1 = (Inr u, w2) \<and>
           afterSave cfg = Some h \<and> h e w2 = (Inl err, w3))" for err
    by (rule agentic_execute_threw)
  show "\<exists>r. fst (agentic_execute cfg args w0) = Inr r"
    if "(\<forall>eid w. returns (resolveEntity cfg eid w)) \<and>
       (\<forall>v e w. validateEntity cfg = Some v \<longrightarrow> returns (v e w)) \<and>
       (\<forall>h e w. beforeSave cfg = Some h \<longrightarrow> returns (h e w)) \<and>
       (\<forall>h e w. afterSave cfg = Some h \<longrightarrow> returns (h e w))"
    using that agentic_execute_returns [of cfg args w0] by blast
  show "fst (agentic_execute cfg args w0) =
            Inr (errorResult (domain cfg @ '' entity with ID '' @ entityId args @ '' not found''))"
    if "resolveEntity cfg (entityId args) w0 = (Inr None, w1)" for w1
    using that by (simp add: agentic_execute_def resolveAndValidate_def)
  show "fst (agentic_execute cfg args w0) =
            Inr (errorResult (case res of VString s \<Rightarrow> s | VBool b \<Rightarrow> ''Entity validation failed''))"
    if "resolveEntity cfg (entityId args) w0 = (Inr (Some entity), w1) \<and>
          validateEntity cfg = Some v \<and> v entity w1 = (Inr res, w2) \<and> res \<noteq> VBool True"
    for entity w1 v res w2
    using that by (simp add: agentic_execute_def resolveAndValidate_def)
  show "fst (agentic_execute cfg args w0) =
            Inr (errorResult ''No modification specified. Provide action+target or batch array.'')"
    if "resolveAndValidate cfg (entityId args) w0 = Inr (entity, w1, cs1) \<and>
          buildModifications args = []" for entity w1 cs1
    using that by (simp add: agentic_execute_def)
  show "fst (agentic_execute cfg args w0) =
            Inr (errorResult (''Save failed: '' @ thrown_message err))"
    if "afterLoop cfg args w0 = Some st \<and> applyBeforeSave cfg st = (Inr e, w1, cs1) \<and>
          saveEntity cfg (entityId args) e w1 = (Inl err, w2)" for st e w1 cs1 err w2
    using that by (simp add: agentic_execute_afterLoop persist_save_threw)
qed

text \<open>
  With all three hooks configured and returning, a run gives a result, and each fatal
  category gives its error result; a \<open>resolveEntity\<close> that throws gives no result.
\<close>

theorem structured_result_unless_hook_throws_witness:
  "(\<exists>r. fst (agentic_execute hookedConfig (batchArgs ''p1'' threeItems) demoStore) = Inr r)
   \<and> fst (agentic_execute hookedConfig (batchArgs ''nobody'' threeItems) demoStore) =
       Inr (errorResult ''workout entity with ID nobody not found'')
   \<and> fst (agentic_execute hookedConfig (batchArgs ''frozen'' threeItems) demoStore) =
       Inr (errorResult ''program is frozen'')
   \<and> fst (agentic_execute hookedConfig (noArgs ''p1'') demoStore) =
       Inr (errorResult ''No modification specified. Provide action+target or batch array.'')
   \<and> fst (agentic_execute demoConfig (batchArgs ''frozen'' threeItems) demoStore) =
       Inr (errorResult ''Save failed: store is read-only'')
   \<and> fst (agentic_execute resolveThrows (batchArgs ''p1'' threeItems) demoStore) =
       Inl (JsError ''connection lost'')"
proof -
  have hooked:
    "(\<forall>eid w. returns (resolveEntity hookedConfig eid w)) \<and>
     (\<forall>v e w. validateEntity hookedConfig = Some v \<longrightarrow> returns (v e w)) \<and>
     (\<forall>h e w. beforeSave hookedConfig = Some h \<longrightarrow> returns (h e w)) \<and>
     (\<forall>h e w. afterSave hookedConfig = Some h \<longrightarrow> returns (h e w))"
    by (auto simp: hookedConfig_def demoConfig_def returns_def)
  have nobody: "resolveEntity hookedConfig (entityId (batchArgs ''nobody'' threeItems)) demoStore =
      (Inr None, demoStore)"
    "domain hookedConfig @ '' entity with ID '' @ entityId (batchArgs ''nobody'' threeItems) @
       '' not found'' = ''workout entity with ID nobody not found''"
    by code_simp+
  have frozen: "resolveEntity hookedConfig (entityId (batchArgs ''frozen'' threeItems)) demoStore =
      (Inr (Some [10]), demoStore)"
    "validateEntity hookedConfig =
       Some (\<lambda>e w. (Inr (if e = [10] then VString ''program is frozen'' else VBool True), w))"
    by (simp_all add: hookedConfig_def demoConfig_def batchArgs_def demoStore_def)
  have empty: "resolveAndValidate hookedConfig (entityId (noArgs ''p1'')) demoStore =
      Inr ([60, 80, 100], demoStore, [Call_resolveEntity ''p1'', Call_validateEntity [60, 80, 100]])"
    "buildModifications (noArgs ''p1'') = []"
    by code_simp+
  let ?st = "\<lparr>currentEntity = [70],
               results = [check_mark @ '' set_weight completed'',
                          cross_mark @ '' set_weight failed: bad weight'',
                          check_mark @ '' set_weight completed''],
               world = demoStore,
               calls = [Call_resolveEntity ''frozen'', Call_execute ''set_weight'' [10],
                        Call_execute ''set_weight'' [70], Call_execute ''set_weight'' [70]]\<rparr>"
  have failed: "afterLoop demoConfig (batchArgs ''frozen'' threeItems) demoStore = Some ?st"
    "applyBeforeSave demoConfig ?st = (Inr [70], demoStore, calls ?st)"
    "saveEntity demoConfig (entityId (batchArgs ''frozen'' threeItems)) [70] demoStore =
       (Inl (JsError ''store is read-only''), demoStore)"
    by code_simp+
  have lost: "resolveEntity resolveThrows (entityId (batchArgs ''p1'' threeItems)) demoStore =
      (Inl (JsError ''connection lost''), demoStore)"
    by (simp add: resolveThrows_def)
  note h = structured_result_unless_hook_throws [of hookedConfig _ demoStore, THEN conjunct2]
  note p = structured_result_unless_hook_throws [of demoConfig _ demoStore, THEN conjunct2]
  have 1: "\<exists>r. fst (agentic_execute hookedConfig (batchArgs ''p1'' threeItems) demoStore) = Inr r"
    using h [of "batchArgs ''p1'' threeItems", THEN conjunct1, rule_format, OF hooked] .
  have 2: "fst (agentic_execute hookedConfig (batchArgs ''nobody'' threeItems) demoStore) =
       Inr (errorResult ''workout entity with ID nobody not found'')"
    using h [of "batchArgs ''nobody'' threeItems", THEN conjunct2, THEN conjunct1, rule_format,
        OF nobody(1)] by (simp only: nobody(2))
  have 3: "fst (agentic_execute hookedConfig (batchArgs ''frozen'' threeItems) demoStore) =
       Inr (errorResult ''program is frozen'')"
    using h [of "batchArgs ''frozen'' threeItems", THEN conjunct2, THEN conjunct2,
        THEN conjunct1, rule_format, of "[10]" demoStore _ "VString ''program is frozen''" demoStore]
      frozen by simp
  have 4: "fst (agentic_execute hookedConfig (noArgs ''p1'') demoStore) =
       Inr (errorResult ''No modification specified. Provide action+target or batch array.'')"
    using h [of "noArgs ''p1''", THEN conjunct2, THEN conjunct2, THEN conjunct2, THEN conjunct1,
        rule_format, OF conjI [OF empty]] .
  have 5: "fst (agentic_execute demoConfig (batchArgs ''frozen'' threeItems) demoStore) =
       Inr (errorResult ''Save failed: store is read-only'')"
    using p [of "batchArgs ''frozen'' threeItems", THEN conjunct2, THEN conjunct2,
        THEN conjunct2, THEN conjunct2, rule_format, OF conjI [OF failed(1) conjI [OF failed(2,3)]]]
    by simp
  have 6: "fst (agentic_execute resolveThrows (batchArgs ''p1'' threeItems) demoStore) =
       Inl (JsError ''connection lost'')"
    using structured_result_unless_hook_throws [of resolveThrows "batchArgs ''p1'' threeItems" demoStore, THEN conjunct1,
        rule_format, of "JsError ''connection lost''"] lost by blast
  from 1 2 3 4 5 6 show ?thesis by blast
qed

text \<open>
  Claim C5 as stated fails: what \<open>resolveEntity\<close>, \<open>beforeSave\<close> or \<open>afterSave\<close> throws
  reaches the caller of \<open>execute\<close>. In the third run the entity has already been saved
  when the exception of \<open>afterSave\<close> escapes.
\<close>

theorem exception_escapes_execute:
  "fst (agentic_execute resolveThrows (batchArgs ''p1'' threeItems) demoStore) =
     Inl (JsError ''connection lost'')
   \<and> agentic_execute beforeSaveThrows (batchArgs ''p1'' threeItems) demoStore =
     (Inl (JsError ''hook failed''), demoStore,
      [Call_resolveEntity ''p1'', Call_execute ''set_weight'' [60, 80, 100],
       Call_execute ''set_weight'' [70, 80, 100], Call_execute ''set_weight'' [70, 80, 100],
       Call_beforeSave [70, 80, 110]])
   \<and> agentic_execute afterSaveThrows (batchArgs ''p1'' threeItems) demoStore =
     (Inl (JsValue ''notify failed''), (''p1'', [70, 80, 110]) # demoStore,
      [Call_resolveEntity ''p1'', Call_execute ''set_weight'' [60, 80, 100],
       Call_execute ''set_weight'' [70, 80, 100], Call_execute ''set_weight'' [70, 80, 100],
       Call_saveEntity ''p1'' [70, 80, 110], Call_afterSave [70, 80, 110]])"
  by code_simp

text \<open>
  Claim C6. When the entity has resolved and passed validation, and the arguments hold
  neither a non-empty batch nor an action (an absent or empty batch, an absent or
  empty action name), \<open>execute\<close> returns at once the error result \<open>No modification
  specified\<close>: the loop is not entered, no handler and no \<open>saveEntity\<close> is called, the only
  calls made are the fetch and the validation, and the world is as the validation left
  it.
\<close>

theorem no_modification_specified:
  assumes "resolveEntity cfg (entityId args) w0 = (Inr (Some entity), w1)"
    and "validateEntity cfg = None \<and> w2 = w1 \<or>
         (\<exists>v. validateEntity cfg = Some v \<and> v entity w1 = (Inr (VBool True), w2))"
    and "batch args = None \<or> batch args = Some []"
    and "arg_action args = None \<or> arg_action args = Some []"
  shows "fst (agentic_execute cfg args w0) =
           Inr \<lparr>success = False, message = ''Modification failed'', updated = None,
                 affectedCount = None,
                 error = Some ''No modification specified. Provide action+target or batch array.''\<rparr>
         \<and> fst (snd (agentic_execute cfg args w0)) = w2
         \<and> snd (snd (agentic_execute cfg args w0)) =
             Call_resolveEntity (entityId args) #
               (if validateEntity cfg = None then [] else [Call_validateEntity entity])
         \<and> filter isExecuteCall (snd (snd (agentic_execute cfg args w0))) = []
         \<and> filter isSaveCall (snd (snd (agentic_execute cfg args w0))) = []
         \<and> loopEntry cfg args w0 = None"
proof -
  have none: "buildModifications args = []"
    using assms(3,4) by (simp add: buildModifications_empty)
  from assms(2) show ?thesis
  proof
    assume "validateEntity cfg = None \<and> w2 = w1"
    then show ?thesis
      using assms(1) none
      by (simp add: agentic_execute_def resolveAndValidate_def loopEntry_def errorResult_def)
  next
    assume "\<exists>v. validateEntity cfg = Some v \<and> v entity w1 = (Inr (VBool True), w2)"
    then show ?thesis
      using assms(1) none
      by (auto simp: agentic_execute_def resolveAndValidate_def loopEntry_def errorResult_def)
  qed
qed

text \<open>
  An empty batch without an action, on an entity that resolves and validates.
\<close>

theorem no_modification_specified_witness:
  "agentic_execute hookedConfig (noArgs ''p1'') demoStore =
     (Inr \<lparr>success = False, message = ''Modification failed'', updated = None,
           affectedCount = None,
           error = Some ''No modification specified. Provide action+target or batch array.''\<rparr>,
      demoStore, [Call_resolveEntity ''p1'', Call_validateEntity [60, 80, 100]])"
proof -
  have r: "resolveEntity hookedConfig (entityId (noArgs ''p1'')) demoStore =
      (Inr (Some [60, 80, 100]), demoStore)"
    by code_simp
  have v: "validateEntity hookedConfig = None \<and> demoStore = demoStore \<or>
      (\<exists>v. validateEntity hookedConfig = Some v \<and>
           v [60, 80, 100] demoStore = (Inr (VBool True), demoStore))"
    by (simp add: hookedConfig_def demoConfig_def)
  have a: "batch (noArgs ''p1'') = Some []" "arg_action (noArgs ''p1'') = None"
    "entityId (noArgs ''p1'') = ''p1''" "validateEntity hookedConfig \<noteq> None"
    by (simp_all add: noArgs_def hookedConfig_def)
  from a(1,2) have b: "batch (noArgs ''p1'') = None \<or> batch (noArgs ''p1'') = Some []"
    "arg_action (noArgs ''p1'') = None \<or> arg_action (noArgs ''p1'') = Some []" by simp_all
  show ?thesis
    using no_modification_specified [OF r v b] a(3,4)
    by (cases "agentic_execute hookedConfig (noArgs ''p1'') demoStore") simp
qed




section \<open>Properties of the CRUD tool\<close>

lemma crudBatchLoop_step:
  "getProperty hs (operation it) = Some h \<Longrightarrow> h (handlerInput it) w = (Inr res, w1) \<Longrightarrow> success res \<Longrightarrow>
     crudBatchLoop hs (it # its) rs w cs =
       crudBatchLoop hs its (rs @ [message res]) w1 (cs @ [operation it])"
  by simp














section \<open>Properties of the modification service\<close>

lemma rows_set_rows [simp]:
  "rows t (set_rows t' rs d) = (if t = t' then rs else rows t d)"
  by (cases t; cases t') simp_all

lemma rows_journal [simp]: "rows t (d\<lparr>journal := j\<rparr>) = rows t d"
  by (cases t) simp_all

lemma journal_set_rows [simp]: "journal (set_rows t rs d) = journal d"
  by (cases t) simp_all

lemma transaction_cases:
  fixes d :: "'j db" and fault vt snap pt pid upd incs
  assumes "vt \<noteq> pt"
  defines "body \<equiv> (\<lambda>tx. case tx_create fault vt snap tx of
                            Inl err \<Rightarrow> Inl err
                          | Inr tx' \<Rightarrow> tx_update fault pt pid upd incs tx')"
  obtains (rolled_back) err where "transaction body d = (Inl err, d)"
  | (committed) d' where "transaction body d = (Inr (), d')"
      "fault (Created vt) = None" "fault (Updated pt pid) = None"
      "rows vt d' = rows vt d @ [snap]"
      "rows pt d' = map (\<lambda>r. if hasId pid r then increment incs (AList.merge r upd) else r) (rows pt d)"
      "journal d' = journal d @ [Created vt, Updated pt pid]"
      "\<And>t. t \<noteq> vt \<Longrightarrow> t \<noteq> pt \<Longrightarrow> rows t d' = rows t d"
      "findUnique pt pid d \<noteq> None"
proof (cases "body d")
  case (Inl err)
  then have "transaction body d = (Inl err, d)" by (simp add: transaction_def)
  then show thesis by (rule rolled_back)
next
  case (Inr d')
  then obtain tx' where c: "tx_create fault vt snap d = Inr tx'"
    and u: "tx_update fault pt pid upd incs tx' = Inr d'"
    by (auto simp: body_def split: sum.splits)
  from c have c': "fault (Created vt) = None"
    "tx' = (set_rows vt (rows vt d @ [snap]) d)\<lparr>journal := journal d @ [Created vt]\<rparr>"
    by (auto simp: tx_create_def split: option.splits if_splits)
  from u have u': "fault (Updated pt pid) = None" "findUnique pt pid tx' \<noteq> None"
    "d' = (set_rows pt
             (map (\<lambda>r. if hasId pid r then increment incs (AList.merge r upd) else r) (rows pt tx')) tx')
          \<lparr>journal := journal tx' @ [Updated pt pid]\<rparr>"
    by (auto simp: tx_update_def split: option.splits)
  have 1: "transaction body d = (Inr (), d')" using Inr by (simp add: transaction_def)
  have 2: "rows vt d' = rows vt d @ [snap]"
    using assms(1) by (simp add: u'(3) c'(2))
  have 3: "rows pt d' =
      map (\<lambda>r. if hasId pid r then increment incs (AList.merge r upd) else r) (rows pt d)"
    using assms(1) by (simp add: u'(3) c'(2))
  have 4: "journal d' = journal d @ [Created vt, Updated pt pid]"
    by (simp add: u'(3) c'(2))
  have 5: "rows t d' = rows t d" if "t \<noteq> vt" "t \<noteq> pt" for t
    using that by (simp add: u'(3) c'(2))
  have 6: "findUnique pt pid d \<noteq> None"
    using u'(2) assms(1) by (simp add: findUnique_def c'(2))
  show thesis
    using 1 c'(1) u'(1) 2 3 4 5 6 by (rule committed)
qed

lemma property_object:
  "distinct (map fst ps) \<Longrightarrow>
     property (object ps) k = (case map_of ps k of None \<Rightarrow> None | Some v \<Rightarrow> v)"
proof (induction ps)
  case Nil
  then show ?case by (simp add: object_def property_def)
next
  case (Cons p ps)
  obtain k' v where p: "p = (k', v)" by (cases p)
  have tail: "property (object ps) k = (case map_of ps k of None \<Rightarrow> None | Some v \<Rightarrow> v)"
    using Cons by simp
  have absent: "map_of ps k' = None"
    using Cons.prems p by (simp add: map_of_eq_None_iff)
  show ?case
  proof (cases v)
    case None
    have "property (object (p # ps)) k = property (object ps) k"
      using p None by (simp add: object_def property_def)
    then show ?thesis using tail p None absent by auto
  next
    case (Some x)
    have "property (object (p # ps)) k = (if k = k' then Some x else property (object ps) k)"
      using p Some by (simp add: object_def property_def)
    then show ?thesis using tail p Some by auto
  qed
qed

lemma property_merge:
  "property (AList.merge r obj) k = (case property obj k of None \<Rightarrow> property r k | Some v \<Rightarrow> Some v)"
  unfolding property_def by (simp add: merge_conv' map_add_def)

lemma property_increment_other:
  "k \<notin> fst ` set incs \<Longrightarrow> property (increment incs r) k = property r k"
proof (induction incs arbitrary: r)
  case Nil
  then show ?case by simp
next
  case (Cons i incs)
  obtain k' n where i: "i = (k', n)" by (cases i)
  with Cons.prems have ne: "k \<noteq> k'" "k \<notin> fst ` set incs" by auto
  have "property (case property r k' of Some (VNum v) \<Rightarrow> AList.update k' (VNum (v + n)) r | _ \<Rightarrow> r) k
          = property r k"
    using ne(1) by (auto simp: property_def update_conv' split: option.splits cell.splits)
  then show ?case using Cons.IH [OF ne(2)] i by simp
qed

lemma property_increment_version:
  "property r ''version'' = Some (VNum n) \<Longrightarrow>
     property (increment [(''version'', 1)] r) ''version'' = Some (VNum (n + 1))"
  by (simp add: property_def update_conv')

lemma find_map_preserved:
  "(\<And>x. P (f x) = P x) \<Longrightarrow> find P (map f xs) = map_option f (find P xs)"
  by (induction xs) simp_all

lemma nutritionUpdate_keys:
  "property (nutritionUpdate deps pd) ''id'' = None"
  "property (nutritionUpdate deps pd) ''version'' = None"
  by (simp_all add: nutritionUpdate_def property_object)

lemma workoutUpdate_keys:
  "property (workoutUpdate deps pd) ''id'' = None"
  "property (workoutUpdate deps pd) ''version'' = None"
  by (simp_all add: workoutUpdate_def property_object)

lemma updated_row:
  assumes "property upd ''id'' = None" "property upd ''version'' = None"
  shows "hasId pid (increment [(''version'', 1)] (AList.merge r upd)) = hasId pid r"
    and "property r ''version'' = Some (VNum n) \<Longrightarrow>
         property (increment [(''version'', 1)] (AList.merge r upd)) ''version'' = Some (VNum (n + 1))"
proof -
  have "property (AList.merge r upd) ''id'' = property r ''id''"
    using assms(1) by (simp add: property_merge)
  moreover have "property (increment [(''version'', 1)] (AList.merge r upd)) ''id'' =
      property (AList.merge r upd) ''id''"
    by (rule property_increment_other) simp
  ultimately show "hasId pid (increment [(''version'', 1)] (AList.merge r upd)) = hasId pid r"
    by (simp only: hasId_def)
  assume "property r ''version'' = Some (VNum n)"
  then have "property (AList.merge r upd) ''version'' = Some (VNum n)"
    using assms(2) by (simp add: property_merge)
  then show "property (increment [(''version'', 1)] (AList.merge r upd)) ''version'' = Some (VNum (n + 1))"
    by (rule property_increment_version)
qed

lemma reread_updated:
  assumes "property upd ''id'' = None" "property upd ''version'' = None"
    and "find (hasId pid) rs = Some row" "property row ''version'' = Some (VNum n)"
  shows "\<exists>row'. find (hasId pid)
            (map (\<lambda>r. if hasId pid r then increment [(''version'', 1)] (AList.merge r upd) else r) rs)
              = Some row' \<and> property row' ''version'' = Some (VNum (n + 1))"
proof -
  let ?f = "\<lambda>r. if hasId pid r then increment [(''version'', 1)] (AList.merge r upd) else r"
  have "hasId pid (?f x) = hasId pid x" for x
    using updated_row(1) [OF assms(1,2)] by simp
  then have "find (hasId pid) (map ?f rs) = map_option ?f (find (hasId pid) rs)"
    by (rule find_map_preserved)
  moreover have "hasId pid row" using assms(3) by (auto simp: find_Some_iff)
  ultimately have "find (hasId pid) (map ?f rs) =
      Some (increment [(''version'', 1)] (AList.merge row upd))"
    using assms(3) by simp
  then show ?thesis using updated_row(2) [OF assms(1,2,4)] by simp
qed

lemma modifyNutritionDay_db:
  fixes deps :: "('j, 'day, 'week, 'plan, 'program) ServiceDeps"
  shows "snd (modifyNutritionDay deps p d) = d \<and>
           (\<forall>plan. fst (modifyNutritionDay deps p d) \<noteq> Inr plan) \<or>
         (\<exists>row pd.
            findUnique Nutrition_plans (planId p) d = Some row \<and>
            property row ''userId'' = Some (VStr (userId p)) \<and>
            nutritionPersistenceData deps row (dayNumber p) (modifiedDayData p) = Inr pd \<and>
            storeFault deps (Created Nutrition_plan_versions) = None \<and>
            storeFault deps (Updated Nutrition_plans (planId p)) = None \<and>
            rows Nutrition_plan_versions (snd (modifyNutritionDay deps p d)) =
              rows Nutrition_plan_versions d @ [nutritionSnapshot deps row (userId p)] \<and>
            rows Nutrition_plans (snd (modifyNutritionDay deps p d)) =
              map (\<lambda>r. if hasId (planId p) r
                        then increment [(''version'', 1)] (AList.merge r (nutritionUpdate deps pd))
                        else r) (rows Nutrition_plans d) \<and>
            journal (snd (modifyNutritionDay deps p d)) =
              journal d @ [Created Nutrition_plan_versions, Updated Nutrition_plans (planId p)] \<and>
            rows Workout_programs (snd (modifyNutritionDay deps p d)) = rows Workout_programs d \<and>
            rows Workout_program_versions (snd (modifyNutritionDay deps p d)) =
              rows Workout_program_versions d)"
proof (cases "findUnique Nutrition_plans (planId p) d")
  case None
  then show ?thesis by (simp add: modifyNutritionDay_def)
next
  case (Some row)
  show ?thesis
  proof (cases "property row ''userId'' = Some (VStr (userId p))")
    case False
    with Some show ?thesis by (simp add: modifyNutritionDay_def)
  next
    case True
    show ?thesis
    proof (cases "nutritionPersistenceData deps row (dayNumber p) (modifiedDayData p)")
      case (Inl err)
      with Some True show ?thesis by (simp add: modifyNutritionDay_def)
    next
      case (Inr pd)
      have ne: "Nutrition_plan_versions \<noteq> Nutrition_plans" by (simp add:)
      from ne show ?thesis
      proof (cases rule: transaction_cases [where d = d and fault = "storeFault deps"
            and snap = "nutritionSnapshot deps row (userId p)" and pid = "planId p"
            and upd = "nutritionUpdate deps pd" and incs = "[(''version'', 1)]"])
        case (rolled_back err)
        then have "modifyNutritionDay deps p d = (Inl err, d)"
          using Some True Inr by (simp add: modifyNutritionDay_def)
        then show ?thesis by simp
      next
        case (committed d')
        have "snd (modifyNutritionDay deps p d) = d'"
          using Some True Inr committed(1)
          by (simp add: modifyNutritionDay_def split: option.splits sum.splits)
        moreover have "rows Workout_programs d' = rows Workout_programs d"
          "rows Workout_program_versions d' = rows Workout_program_versions d"
          by (rule committed(7); simp add:)+
        ultimately show ?thesis
          using Some True Inr committed(2-6) by simp
      qed
    qed
  qed
qed

lemma modifyWorkoutWeek_db:
  fixes deps :: "('j, 'day, 'week, 'plan, 'program) ServiceDeps"
  shows "snd (modifyWorkoutWeek deps p d) = d \<and>
           (\<forall>program. fst (modifyWorkoutWeek deps p d) \<noteq> Inr program) \<or>
         (\<exists>row pd.
            findUnique Workout_programs (programId p) d = Some row \<and>
            property row ''userId'' = Some (VStr (userId p)) \<and>
            workoutPersistenceData deps row (weekNumber p) (modifiedWeekData p) (userId p) = Inr pd \<and>
            storeFault deps (Created Workout_program_versions) = None \<and>
            storeFault deps (Updated Workout_programs (programId p)) = None \<and>
            rows Workout_program_versions (snd (modifyWorkoutWeek deps p d)) =
              rows Workout_program_versions d @ [workoutSnapshot deps row (userId p)] \<and>
            rows Workout_programs (snd (modifyWorkoutWeek deps p d)) =
              map (\<lambda>r. if hasId (programId p) r
                        then increment [(''version'', 1)] (AList.merge r (workoutUpdate deps pd))
                        else r) (rows Workout_programs d) \<and>
            journal (snd (modifyWorkoutWeek deps p d)) =
              journal d @ [Created Workout_program_versions, Updated Workout_programs (programId p)] \<and>
            rows Nutrition_plans (snd (modifyWorkoutWeek deps p d)) = rows Nutrition_plans d \<and>
            rows Nutrition_plan_versions (snd (modifyWorkoutWeek deps p d)) =
              rows Nutrition_plan_versions d)"
proof (cases "findUnique Workout_programs (programId p) d")
  case None
  then show ?thesis by (simp add: modifyWorkoutWeek_def)
next
  case (Some row)
  show ?thesis
  proof (cases "property row ''userId'' = Some (VStr (userId p))")
    case False
    with Some show ?thesis by (simp add: modifyWorkoutWeek_def)
  next
    case True
    show ?thesis
    proof (cases "workoutPersistenceData deps row (weekNumber p) (modifiedWeekData p) (userId p)")
      case (Inl err)
      with Some True show ?thesis by (simp add: modifyWorkoutWeek_def)
    next
      case (Inr pd)
      have ne: "Workout_program_versions \<noteq> Workout_programs" by (simp add:)
      from ne show ?thesis
      proof (cases rule: transaction_cases [where d = d and fault = "storeFault deps"
            and snap = "workoutSnapshot deps row (userId p)" and pid = "programId p"
            and upd = "workoutUpdate deps pd" and incs = "[(''version'', 1)]"])
        case (rolled_back err)
        then have "modifyWorkoutWeek deps p d = (Inl err, d)"
          using Some True Inr by (simp add: modifyWorkoutWeek_def)
        then show ?thesis by simp
      next
        case (committed d')
        have "snd (modifyWorkoutWeek deps p d) = d'"
          using Some True Inr committed(1)
          by (simp add: modifyWorkoutWeek_def split: option.splits sum.splits)
        moreover have "rows Nutrition_plans d' = rows Nutrition_plans d"
          "rows Nutrition_plan_versions d' = rows Nutrition_plan_versions d"
          by (rule committed(7); simp add:)+
        ultimately show ?thesis
          using Some True Inr committed(2-6) by simp
      qed
    qed
  qed
qed


lemma nutritionSnapshot_fields:
  "property (nutritionSnapshot deps row uid) ''id'' = Some (VStr (createId deps))"
  "property (nutritionSnapshot deps row uid) ''planId'' = property row ''id''"
  "property (nutritionSnapshot deps row uid) ''version'' = property row ''version''"
  "\<forall>c \<in> set [''name'', ''description'', ''goals'', ''durationWeeks'', ''restrictions'',
              ''preferences'', ''status''].
     property (nutritionSnapshot deps row uid) c = property row c"
  "property (nutritionSnapshot deps row uid) ''targetMacros'' =
     toPrismaJsonValue deps (property row ''targetMacros'')"
  "property (nutritionSnapshot deps row uid) ''weeks'' =
     toPrismaJsonValue deps (property row ''weeks'')"
  "property (nutritionSnapshot deps row uid) ''metadata'' =
     toNullablePrismaJsonValue deps (property row ''metadata'')"
  "property (nutritionSnapshot deps row uid) ''createdBy'' = Some (VStr uid)"
  by (simp_all add: nutritionSnapshot_def property_object)

lemma workoutSnapshot_fields:
  "property (workoutSnapshot deps row uid) ''id'' = Some (VStr (createId deps))"
  "property (workoutSnapshot deps row uid) ''programId'' = property row ''id''"
  "property (workoutSnapshot deps row uid) ''version'' = property row ''version''"
  "\<forall>c \<in> set [''name'', ''description'', ''difficulty'', ''durationWeeks'', ''goals'',
              ''status''].
     property (workoutSnapshot deps row uid) c = property row c"
  "property (workoutSnapshot deps row uid) ''weeks'' =
     toPrismaJsonValue deps (property row ''weeks'')"
  "property (workoutSnapshot deps row uid) ''metadata'' =
     toNullablePrismaJsonValue deps (property row ''metadata'')"
  "property (workoutSnapshot deps row uid) ''createdBy'' = Some (VStr uid)"
  by (simp_all add: workoutSnapshot_def property_object)

lemma committed_version:
  assumes "findUnique t pid d = Some row"
    and "rows t d' =
      map (\<lambda>r. if hasId pid r then increment [(''version'', 1)] (AList.merge r upd) else r) (rows t d)"
    and "property upd ''id'' = None" "property upd ''version'' = None"
    and "property row ''version'' = Some (VNum n)"
  shows "\<exists>row'. findUnique t pid d' = Some row' \<and> property row' ''version'' = Some (VNum (n + 1))"
  using reread_updated [OF assms(3,4), of pid "rows t d" row n] assms(1,2,5)
  by (simp add: findUnique_def)

lemma nutrition_commit:
  fixes deps :: "('j, 'day, 'week, 'plan, 'program) ServiceDeps"
  shows "(snd (modifyNutritionDay deps p d) = d \<and>
      (\<forall>plan. fst (modifyNutritionDay deps p d) \<noteq> Inr plan) \<or>
    (\<exists>row pd.
       findUnique Nutrition_plans (planId p) d = Some row \<and>
       nutritionPersistenceData deps row (dayNumber p) (modifiedDayData p) = Inr pd \<and>
       nutrition_plan_versions (snd (modifyNutritionDay deps p d)) =
         nutrition_plan_versions d @ [nutritionSnapshot deps row (userId p)] \<and>
       nutrition_plans (snd (modifyNutritionDay deps p d)) =
         map (\<lambda>r. if hasId (planId p) r
                   then increment [(''version'', 1)] (AList.merge r (nutritionUpdate deps pd))
                   else r) (nutrition_plans d) \<and>
       journal (snd (modifyNutritionDay deps p d)) =
         journal d @ [Created Nutrition_plan_versions, Updated Nutrition_plans (planId p)] \<and>
       workout_programs (snd (modifyNutritionDay deps p d)) = workout_programs d \<and>
       workout_program_versions (snd (modifyNutritionDay deps p d)) = workout_program_versions d \<and>
       (\<forall>n. property row ''version'' = Some (VNum n) \<longrightarrow>
          (\<exists>row'. findUnique Nutrition_plans (planId p) (snd (modifyNutritionDay deps p d)) = Some row' \<and>
             property row' ''version'' = Some (VNum (n + 1))))))"
proof -
  let ?n' = "snd (modifyNutritionDay deps p d)"
  note N = modifyNutritionDay_db [of deps p d]
  show ?thesis
    using N
  proof
    assume "?n' = d \<and> (\<forall>plan. fst (modifyNutritionDay deps p d) \<noteq> Inr plan)"
    then show ?thesis by blast
  next
    assume "\<exists>row pd. findUnique Nutrition_plans (planId p) d = Some row \<and>
            property row ''userId'' = Some (VStr (userId p)) \<and>
            nutritionPersistenceData deps row (dayNumber p) (modifiedDayData p) = Inr pd \<and>
            storeFault deps (Created Nutrition_plan_versions) = None \<and>
            storeFault deps (Updated Nutrition_plans (planId p)) = None \<and>
            rows Nutrition_plan_versions ?n' =
              rows Nutrition_plan_versions d @ [nutritionSnapshot deps row (userId p)] \<and>
            rows Nutrition_plans ?n' =
              map (\<lambda>r. if hasId (planId p) r
                        then increment [(''version'', 1)] (AList.merge r (nutritionUpdate deps pd))
                        else r) (rows Nutrition_plans d) \<and>
            journal ?n' = journal d @ [Created Nutrition_plan_versions, Updated Nutrition_plans (planId p)] \<and>
            rows Workout_programs ?n' = rows Workout_programs d \<and>
            rows Workout_program_versions ?n' = rows Workout_program_versions d"
    then obtain row pd where c:
      "findUnique Nutrition_plans (planId p) d = Some row"
      "nutritionPersistenceData deps row (dayNumber p) (modifiedDayData p) = Inr pd"
      "rows Nutrition_plan_versions ?n' =
         rows Nutrition_plan_versions d @ [nutritionSnapshot deps row (userId p)]"
      "rows Nutrition_plans ?n' =
         map (\<lambda>r. if hasId (planId p) r
                   then increment [(''version'', 1)] (AList.merge r (nutritionUpdate deps pd))
                   else r) (rows Nutrition_plans d)"
      "journal ?n' = journal d @ [Created Nutrition_plan_versions, Updated Nutrition_plans (planId p)]"
      "rows Workout_programs ?n' = rows Workout_programs d"
      "rows Workout_program_versions ?n' = rows Workout_program_versions d"
      by blast
    have "\<forall>n. property row ''version'' = Some (VNum n) \<longrightarrow>
          (\<exists>row'. findUnique Nutrition_plans (planId p) ?n' = Some row' \<and>
             property row' ''version'' = Some (VNum (n + 1)))"
      using committed_version [OF c(1) c(4) nutritionUpdate_keys] by blast
    with c show ?thesis by auto
  qed
qed

lemma nutrition_rollback:
  fixes deps :: "('j, 'day, 'week, 'plan, 'program) ServiceDeps"
  shows "storeFault deps (Created Nutrition_plan_versions) \<noteq> None \<or>
      storeFault deps (Updated Nutrition_plans (planId p)) \<noteq> None \<longrightarrow>
      snd (modifyNutritionDay deps p d) = d"
  using modifyNutritionDay_db [of deps p d] by auto

lemma nutrition_snapshot:
  fixes deps :: "('j, 'day, 'week, 'plan, 'program) ServiceDeps"
  shows "property (nutritionSnapshot deps r uid) ''planId'' = property r ''id'' \<and>
      property (nutritionSnapshot deps r uid) ''version'' = property r ''version'' \<and>
      (\<forall>c \<in> set [''name'', ''description'', ''goals'', ''durationWeeks'', ''restrictions'',
                  ''preferences'', ''status''].
         property (nutritionSnapshot deps r uid) c = property r c) \<and>
      property (nutritionSnapshot deps r uid) ''targetMacros'' =
        toPrismaJsonValue deps (property r ''targetMacros'') \<and>
      property (nutritionSnapshot deps r uid) ''weeks'' =
        toPrismaJsonValue deps (property r ''weeks'') \<and>
      property (nutritionSnapshot deps r uid) ''metadata'' =
        toNullablePrismaJsonValue deps (property r ''metadata'') \<and>
      property (nutritionSnapshot deps r uid) ''createdBy'' = Some (VStr uid)"
  using nutritionSnapshot_fields [of deps r uid] by blast

lemma workout_commit:
  fixes deps :: "('j, 'day, 'week, 'plan, 'program) ServiceDeps"
  shows "snd (modifyWorkoutWeek deps q d) = d \<and>
      (\<forall>program. fst (modifyWorkoutWeek deps q d) \<noteq> Inr program) \<or>
    (\<exists>row pd.
       findUnique Workout_programs (programId q) d = Some row \<and>
       workoutPersistenceData deps row (weekNumber q) (modifiedWeekData q) (userId q) = Inr pd \<and>
       workout_program_versions (snd (modifyWorkoutWeek deps q d)) =
         workout_program_versions d @ [workoutSnapshot deps row (userId q)] \<and>
       workout_programs (snd (modifyWorkoutWeek deps q d)) =
         map (\<lambda>r. if hasId (programId q) r
                   then increment [(''version'', 1)] (AList.merge r (workoutUpdate deps pd))
                   else r) (workout_programs d) \<and>
       journal (snd (modifyWorkoutWeek deps q d)) =
         journal d @ [Created Workout_program_versions, Updated Workout_programs (programId q)] \<and>
       nutrition_plans (snd (modifyWorkoutWeek deps q d)) = nutrition_plans d \<and>
       nutrition_plan_versions (snd (modifyWorkoutWeek deps q d)) = nutrition_plan_versions d \<and>
       (\<forall>n. property row ''version'' = Some (VNum n) \<longrightarrow>
          (\<exists>row'. findUnique Workout_programs (programId q) (snd (modifyWorkoutWeek deps q d)) = Some row' \<and>
             property row' ''version'' = Some (VNum (n + 1)))))"
proof -
  let ?w' = "snd (modifyWorkoutWeek deps q d)"
  note N = modifyWorkoutWeek_db [of deps q d]
  show ?thesis
    using N
  proof
    assume "?w' = d \<and> (\<forall>program. fst (modifyWorkoutWeek deps q d) \<noteq> Inr program)"
    then show ?thesis by blast
  next
    assume "\<exists>row pd. findUnique Workout_programs (programId q) d = Some row \<and>
            property row ''userId'' = Some (VStr (userId q)) \<and>
            workoutPersistenceData deps row (weekNumber q) (modifiedWeekData q) (userId q) = Inr pd \<and>
            storeFault deps (Created Workout_program_versions) = None \<and>
            storeFault deps (Updated Workout_programs (programId q)) = None \<and>
            rows Workout_program_versions ?w' =
              rows Workout_program_versions d @ [workoutSnapshot deps row (userId q)] \<and>
            rows Workout_programs ?w' =
              map (\<lambda>r. if hasId (programId q) r
                        then increment [(''version'', 1)] (AList.merge r (workoutUpdate deps pd))
                        else r) (rows Workout_programs d) \<and>
            journal ?w' = journal d @ [Created Workout_program_versions, Updated Workout_programs (programId q)] \<and>
            rows Nutrition_plans ?w' = rows Nutrition_plans d \<and>
            rows Nutrition_plan_versions ?w' = rows Nutrition_plan_versions d"
    then obtain row pd where c:
      "findUnique Workout_programs (programId q) d = Some row"
      "workoutPersistenceData deps row (weekNumber q) (modifiedWeekData q) (userId q) = Inr pd"
      "rows Workout_program_versions ?w' =
         rows Workout_program_versions d @ [workoutSnapshot deps row (userId q)]"
      "rows Workout_programs ?w' =
         map (\<lambda>r. if hasId (programId q) r
                   then increment [(''version'', 1)] (AList.merge r (workoutUpdate deps pd))
                   else r) (rows Workout_programs d)"
      "journal ?w' = journal d @ [Created Workout_program_versions, Updated Workout_programs (programId q)]"
      "rows Nutrition_plans ?w' = rows Nutrition_plans d"
      "rows Nutrition_plan_versions ?w' = rows Nutrition_plan_versions d"
      by blast
    have "\<forall>n. property row ''version'' = Some (VNum n) \<longrightarrow>
          (\<exists>row'. findUnique Workout_programs (programId q) ?w' = Some row' \<and>
             property row' ''version'' = Some (VNum (n + 1)))"
      using committed_version [OF c(1) c(4) workoutUpdate_keys] by blast
    with c show ?thesis by auto
  qed
qed

lemma workout_rollback:
  fixes deps :: "('j, 'day, 'week, 'plan, 'program) ServiceDeps"
  shows "storeFault deps (Created Workout_program_versions) \<noteq> None \<or>
      storeFault deps (Updated Workout_programs (programId q)) \<noteq> None \<longrightarrow>
      snd (modifyWorkoutWeek deps q d) = d"
  using modifyWorkoutWeek_db [of deps q d] by auto

lemma workout_snapshot:
  fixes deps :: "('j, 'day, 'week, 'plan, 'program) ServiceDeps"
  shows "property (workoutSnapshot deps r uid) ''programId'' = property r ''id'' \<and>
      property (workoutSnapshot deps r uid) ''version'' = property r ''version'' \<and>
      (\<forall>c \<in> set [''name'', ''description'', ''difficulty'', ''durationWeeks'', ''goals'',
                  ''status''].
         property (workoutSnapshot deps r uid) c = property r c) \<and>
      property (workoutSnapshot deps r uid) ''weeks'' =
        toPrismaJsonValue deps (property r ''weeks'') \<and>
      property (workoutSnapshot deps r uid) ''metadata'' =
        toNullablePrismaJsonValue deps (property r ''metadata'') \<and>
      property (workoutSnapshot deps r uid) ''createdBy'' = Some (VStr uid)"
  using workoutSnapshot_fields [of deps r uid] by blast

text \<open>
  Claim C3. A call of \<open>modifyNutritionDay\<close> leaves the database either exactly as it was
  (and then it has not returned a plan), or committed: exactly one row has been appended
  to the version table, the plan row has been updated, the two statements are the only
  ones recorded and the insert of the snapshot comes before the update, and the other
  tables are untouched. The snapshot is built from the row that was read before the
  edit: its \<open>version\<close> is the version read, its \<open>planId\<close> the id read, its plain columns
  are the columns read, its JSON columns are the columns read as the store's JSON
  conversion hands them on, and \<open>createdBy\<close> is the acting user. The row read back
  after the commit has the version read plus 1. Both statements run inside the one
  transaction: when the store fails either of them, nothing is visible, the snapshot
  included. \<open>modifyWorkoutWeek\<close> does the same on the program tables. The atomicity of a
  transaction is the contract of the store, as modelled above; the database is not
  written by anyone else between the read and the transaction.
\<close>

theorem snapshot_then_update_atomically:
  fixes deps :: "('j, 'day, 'week, 'plan, 'program) ServiceDeps"
  shows
  "(snd (modifyNutritionDay deps p d) = d \<and>
      (\<forall>plan. fst (modifyNutritionDay deps p d) \<noteq> Inr plan) \<or>
    (\<exists>row pd.
       findUnique Nutrition_plans (planId p) d = Some row \<and>
       nutritionPersistenceData deps row (dayNumber p) (modifiedDayData p) = Inr pd \<and>
       nutrition_plan_versions (snd (modifyNutritionDay deps p d)) =
         nutrition_plan_versions d @ [nutritionSnapshot deps row (userId p)] \<and>
       nutrition_plans (snd (modifyNutritionDay deps p d)) =
         map (\<lambda>r. if hasId (planId p) r
                   then increment [(''version'', 1)] (AList.merge r (nutritionUpdate deps pd))
                   else r) (nutrition_plans d) \<and>
       journal (snd (modifyNutritionDay deps p d)) =
         journal d @ [Created Nutrition_plan_versions, Updated Nutrition_plans (planId p)] \<and>
       workout_programs (snd (modifyNutritionDay deps p d)) = workout_programs d \<and>
       workout_program_versions (snd (modifyNutritionDay deps p d)) = workout_program_versions d \<and>
       (\<forall>n. property row ''version'' = Some (VNum n) \<longrightarrow>
          (\<exists>row'. findUnique Nutrition_plans (planId p) (snd (modifyNutritionDay deps p d)) = Some row' \<and>
             property row' ''version'' = Some (VNum (n + 1))))))
   \<and> (storeFault deps (Created Nutrition_plan_versions) \<noteq> None \<or>
      storeFault deps (Updated Nutrition_plans (planId p)) \<noteq> None \<longrightarrow>
      snd (modifyNutritionDay deps p d) = d)
   \<and> (property (nutritionSnapshot deps r uid) ''planId'' = property r ''id'' \<and>
      property (nutritionSnapshot deps r uid) ''version'' = property r ''version'' \<and>
      (\<forall>c \<in> set [''name'', ''description'', ''goals'', ''durationWeeks'', ''restrictions'',
                  ''preferences'', ''status''].
         property (nutritionSnapshot deps r uid) c = property r c) \<and>
      property (nutritionSnapshot deps r uid) ''targetMacros'' =
        toPrismaJsonValue deps (property r ''targetMacros'') \<and>
      property (nutritionSnapshot deps r uid) ''weeks'' =
        toPrismaJsonValue deps (property r ''weeks'') \<and>
      property (nutritionSnapshot deps r uid) ''metadata'' =
        toNullablePrismaJsonValue deps (property r ''metadata'') \<and>
      property (nutritionSnapshot deps r uid) ''createdBy'' = Some (VStr uid))
   \<and> (snd (modifyWorkoutWeek deps q d) = d \<and>
      (\<forall>program. fst (modifyWorkoutWeek deps q d) \<noteq> Inr program) \<or>
    (\<exists>row pd.
       findUnique Workout_programs (programId q) d = Some row \<and>
       workoutPersistenceData deps row (weekNumber q) (modifiedWeekData q) (userId q) = Inr pd \<and>
       workout_program_versions (snd (modifyWorkoutWeek deps q d)) =
         workout_program_versions d @ [workoutSnapshot deps row (userId q)] \<and>
       workout_programs (snd (modifyWorkoutWeek deps q d)) =
         map (\<lambda>r. if hasId (programId q) r
                   then increment [(''version'', 1)] (AList.merge r (workoutUpdate deps pd))
                   else r) (workout_programs d) \<and>
       journal (snd (modifyWorkoutWeek deps q d)) =
         journal d @ [Created Workout_program_versions, Updated Workout_programs (programId q)] \<and>
       nutrition_plans (snd (modifyWorkoutWeek deps q d)) = nutrition_plans d \<and>
       nutrition_plan_versions (snd (modifyWorkoutWeek deps q d)) = nutrition_plan_versions d \<and>
       (\<forall>n. property row ''version'' = Some (VNum n) \<longrightarrow>
          (\<exists>row'. findUnique Workout_programs (programId q) (snd (modifyWorkoutWeek deps q d)) = Some row' \<and>
             property row' ''version'' = Some (VNum (n + 1))))))
   \<and> (storeFault deps (Created Workout_program_versions) \<noteq> None \<or>
      storeFault deps (Updated Workout_programs (programId q)) \<noteq> None \<longrightarrow>
      snd (modifyWorkoutWeek deps q d) = d)
   \<and> (property (workoutSnapshot deps r uid) ''programId'' = property r ''id'' \<and>
      property (workoutSnapshot deps r uid) ''version'' = property r ''version'' \<and>
      (\<forall>c \<in> set [''name'', ''description'', ''difficulty'', ''durationWeeks'', ''goals'',
                  ''status''].
         property (workoutSnapshot deps r uid) c = property r c) \<and>
      property (workoutSnapshot deps r uid) ''weeks'' =
        toPrismaJsonValue deps (property r ''weeks'') \<and>
      property (workoutSnapshot deps r uid) ''metadata'' =
        toNullablePrismaJsonValue deps (property r ''metadata'') \<and>
      property (workoutSnapshot deps r uid) ''createdBy'' = Some (VStr uid))"
  by (rule conjI [OF nutrition_commit conjI [OF nutrition_rollback conjI [OF nutrition_snapshot
        conjI [OF workout_commit conjI [OF workout_rollback workout_snapshot]]]]])

text \<open>
  The plan at version 3 and the program at version 7: after the call the snapshot holds
  version 3 (7) and the old weeks, the live row is at version 4 (8), and the journal
  shows the insert before the update. With a store that refuses the update, the
  database is as before, without the snapshot.
\<close>

theorem snapshot_then_update_atomically_witness:
  "fst (modifyNutritionDay demoDeps dayParams demoDb) =
     Inr [(''id'', VStr ''plan1''), (''userId'', VStr ''u1''), (''version'', VNum 4),
          (''name'', VStr ''Cut''), (''weeks'', VJson ''new days''), (''status'', VStr ''ACTIVE'')]
   \<and> journal (snd (modifyNutritionDay demoDeps dayParams demoDb)) =
       [Created Nutrition_plan_versions, Updated Nutrition_plans ''plan1'']
   \<and> nutrition_plan_versions (snd (modifyNutritionDay demoDeps dayParams demoDb)) =
       [[(''id'', VStr ''v1''), (''planId'', VStr ''plan1''), (''version'', VNum 3),
         (''name'', VStr ''Cut''), (''weeks'', VJson ''old days''), (''status'', VStr ''ACTIVE''),
         (''createdBy'', VStr ''u1'')]]
   \<and> map (\<lambda>r. property r ''version'') (nutrition_plans (snd (modifyNutritionDay demoDeps dayParams demoDb)))
       = [Some (VNum 4)]
   \<and> snd (modifyNutritionDay updateFails dayParams demoDb) = demoDb
   \<and> journal (snd (modifyWorkoutWeek demoDeps weekParams demoDb)) =
       [Created Workout_program_versions, Updated Workout_programs ''prog1'']
   \<and> workout_program_versions (snd (modifyWorkoutWeek demoDeps weekParams demoDb)) =
       [[(''id'', VStr ''v1''), (''programId'', VStr ''prog1''), (''version'', VNum 7),
         (''name'', VStr ''Strength''), (''weeks'', VJson ''old weeks''),
         (''createdBy'', VStr ''u1'')]]
   \<and> map (\<lambda>r. property r ''version'') (workout_programs (snd (modifyWorkoutWeek demoDeps weekParams demoDb)))
       = [Some (VNum 8)]
   \<and> snd (modifyWorkoutWeek updateFails weekParams demoDb) = demoDb"
proof -
  note T = snapshot_then_update_atomically [of demoDeps dayParams demoDb "[]" "''u1''" weekParams]
  note F = snapshot_then_update_atomically [of updateFails dayParams demoDb "[]" "''u1''" weekParams]
  have ev:
    "fst (modifyNutritionDay demoDeps dayParams demoDb) =
       Inr [(''id'', VStr ''plan1''), (''userId'', VStr ''u1''), (''version'', VNum 4),
            (''name'', VStr ''Cut''), (''weeks'', VJson ''new days''), (''status'', VStr ''ACTIVE'')]"
    "nutrition_plan_versions (snd (modifyNutritionDay demoDeps dayParams demoDb)) =
       [[(''id'', VStr ''v1''), (''planId'', VStr ''plan1''), (''version'', VNum 3),
         (''name'', VStr ''Cut''), (''weeks'', VJson ''old days''), (''status'', VStr ''ACTIVE''),
         (''createdBy'', VStr ''u1'')]]"
    "map (\<lambda>r. property r ''version'') (nutrition_plans (snd (modifyNutritionDay demoDeps dayParams demoDb)))
       = [Some (VNum 4)]"
    "workout_program_versions (snd (modifyWorkoutWeek demoDeps weekParams demoDb)) =
       [[(''id'', VStr ''v1''), (''programId'', VStr ''prog1''), (''version'', VNum 7),
         (''name'', VStr ''Strength''), (''weeks'', VJson ''old weeks''),
         (''createdBy'', VStr ''u1'')]]"
    "map (\<lambda>r. property r ''version'') (workout_programs (snd (modifyWorkoutWeek demoDeps weekParams demoDb)))
       = [Some (VNum 8)]"
    "fst (modifyWorkoutWeek demoDeps weekParams demoDb) =
       Inr [(''id'', VStr ''prog1''), (''userId'', VStr ''u1''), (''version'', VNum 8),
            (''name'', VStr ''Strength''), (''weeks'', VJson ''new weeks'')]"
    by code_simp+
  have ids: "journal demoDb = []" "planId dayParams = ''plan1''" "programId weekParams = ''prog1''"
    by (simp_all add: demoDb_def dayParams_def weekParams_def)
  have faults: "storeFault updateFails (Updated Nutrition_plans (planId dayParams)) \<noteq> None"
    "storeFault updateFails (Updated Workout_programs (programId weekParams)) \<noteq> None"
    by (simp_all add: updateFails_def)
  have 1: "journal (snd (modifyNutritionDay demoDeps dayParams demoDb)) =
       [Created Nutrition_plan_versions, Updated Nutrition_plans ''plan1'']"
    using T [THEN conjunct1] ev(1) ids by auto
  have 2: "journal (snd (modifyWorkoutWeek demoDeps weekParams demoDb)) =
       [Created Workout_program_versions, Updated Workout_programs ''prog1'']"
    using T [THEN conjunct2, THEN conjunct2, THEN conjunct2, THEN conjunct1] ev(6) ids by auto
  have 3: "snd (modifyNutritionDay updateFails dayParams demoDb) = demoDb"
    using F [THEN conjunct2, THEN conjunct1] faults(1) by blast
  have 4: "snd (modifyWorkoutWeek updateFails weekParams demoDb) = demoDb"
    using F [THEN conjunct2, THEN conjunct2, THEN conjunct2, THEN conjunct2, THEN conjunct1]
      faults(2) by blast
  from 1 2 3 4 ev show ?thesis by simp
qed

end
